theory Spec2Isabelle
  imports Complex_Main
begin

section \<open>JavaScript numbers\<close>

text \<open>
  The scroll effects of \<^verbatim>\<open>js/main.js\<close> compute with JavaScript numbers. A division
  by zero does not raise in JavaScript: it yields \<^verbatim>\<open>Infinity\<close>, \<^verbatim>\<open>-Infinity\<close> or
  \<^verbatim>\<open>NaN\<close>, and these values propagate through the later operations. The model keeps
  the three non-finite values apart from the finite ones, which are taken as exact reals
  (rounding of doubles is not modelled; \<^verbatim>\<open>0\<close> and \<^verbatim>\<open>1\<close> are doubles and rounding is
  monotone, so the bounds below are those of the doubles too). The sign of a zero is not
  modelled: every zero divisor of the code is a height, or a height times a positive
  constant, hence \<^verbatim>\<open>+0\<close>.
\<close>

datatype jsnum = Val real | PInf | NInf | NaN

fun js_neg :: "jsnum \<Rightarrow> jsnum" where
  "js_neg (Val x) = Val (- x)"
| "js_neg PInf = NInf"
| "js_neg NInf = PInf"
| "js_neg NaN = NaN"

fun js_add :: "jsnum \<Rightarrow> jsnum \<Rightarrow> jsnum" where
  "js_add NaN _ = NaN"
| "js_add _ NaN = NaN"
| "js_add (Val x) (Val y) = Val (x + y)"
| "js_add PInf NInf = NaN"
| "js_add NInf PInf = NaN"
| "js_add PInf _ = PInf"
| "js_add _ PInf = PInf"
| "js_add NInf _ = NInf"
| "js_add _ NInf = NInf"

definition js_sub :: "jsnum \<Rightarrow> jsnum \<Rightarrow> jsnum" where
  "js_sub a b = js_add a (js_neg b)"

text \<open>The sign of a product with an infinity; \<^verbatim>\<open>Infinity * 0\<close> is \<^verbatim>\<open>NaN\<close>.\<close>

definition inf_times :: "bool \<Rightarrow> real \<Rightarrow> jsnum" where
  "inf_times positive y =
     (if y = 0 then NaN else if (0 < y) = positive then PInf else NInf)"

fun js_mul :: "jsnum \<Rightarrow> jsnum \<Rightarrow> jsnum" where
  "js_mul NaN _ = NaN"
| "js_mul _ NaN = NaN"
| "js_mul (Val x) (Val y) = Val (x * y)"
| "js_mul PInf (Val y) = inf_times True y"
| "js_mul NInf (Val y) = inf_times False y"
| "js_mul (Val x) PInf = inf_times True x"
| "js_mul (Val x) NInf = inf_times False x"
| "js_mul PInf PInf = PInf"
| "js_mul NInf NInf = PInf"
| "js_mul PInf NInf = NInf"
| "js_mul NInf PInf = NInf"

text \<open>
  Division: a finite value over zero is an infinity of the dividend's sign, and
  \<^verbatim>\<open>0 / 0\<close> is \<^verbatim>\<open>NaN\<close>; nothing is raised.
\<close>

fun js_div :: "jsnum \<Rightarrow> jsnum \<Rightarrow> jsnum" where
  "js_div NaN _ = NaN"
| "js_div _ NaN = NaN"
| "js_div (Val x) (Val y) =
     (if y \<noteq> 0 then Val (x / y)
      else if 0 < x then PInf else if x < 0 then NInf else NaN)"
| "js_div (Val x) _ = Val 0"
| "js_div PInf (Val y) = (if 0 \<le> y then PInf else NInf)"
| "js_div NInf (Val y) = (if 0 \<le> y then NInf else PInf)"
| "js_div _ _ = NaN"

text \<open>Comparison \<^verbatim>\<open>a < b\<close>: false as soon as an operand is \<^verbatim>\<open>NaN\<close>.\<close>

fun js_lt :: "jsnum \<Rightarrow> jsnum \<Rightarrow> bool" where
  "js_lt NaN _ = False"
| "js_lt _ NaN = False"
| "js_lt (Val x) (Val y) = (x < y)"
| "js_lt NInf NInf = False"
| "js_lt NInf _ = True"
| "js_lt _ NInf = False"
| "js_lt PInf _ = False"
| "js_lt _ PInf = True"

definition js_gt :: "jsnum \<Rightarrow> jsnum \<Rightarrow> bool" where
  "js_gt a b = js_lt b a"

text \<open>\<^verbatim>\<open>Math.max\<close> and \<^verbatim>\<open>Math.min\<close> return \<^verbatim>\<open>NaN\<close> when an argument is \<^verbatim>\<open>NaN\<close>.\<close>

fun js_max :: "jsnum \<Rightarrow> jsnum \<Rightarrow> jsnum" where
  "js_max NaN _ = NaN"
| "js_max _ NaN = NaN"
| "js_max a b = (if js_lt a b then b else a)"

fun js_min :: "jsnum \<Rightarrow> jsnum \<Rightarrow> jsnum" where
  "js_min NaN _ = NaN"
| "js_min _ NaN = NaN"
| "js_min a b = (if js_lt b a then b else a)"

text \<open>\<^verbatim>\<open>Math.pow(a, n)\<close> for a literal exponent \<open>n\<close> that is a natural number.\<close>

definition js_pow :: "jsnum \<Rightarrow> nat \<Rightarrow> jsnum" where
  "js_pow a n =
     (if n = 0 then Val 1
      else case a of
             Val x \<Rightarrow> Val (x ^ n)
           | PInf \<Rightarrow> PInf
           | NInf \<Rightarrow> (if odd n then NInf else PInf)
           | NaN \<Rightarrow> NaN)"

text \<open>\<^verbatim>\<open>Math.sin\<close>: the sine of an infinity or of \<^verbatim>\<open>NaN\<close> is \<^verbatim>\<open>NaN\<close>.\<close>

fun js_sin :: "jsnum \<Rightarrow> jsnum" where
  "js_sin (Val x) = Val (sin x)"
| "js_sin _ = NaN"

fun js_finite :: "jsnum \<Rightarrow> bool" where
  "js_finite (Val x) = True"
| "js_finite _ = False"

text \<open>A number in the closed interval from 0 to 1; no non-finite value is.\<close>

fun in_unit :: "jsnum \<Rightarrow> bool" where
  "in_unit (Val x) = (0 \<le> x \<and> x \<le> 1)"
| "in_unit _ = False"


section \<open>Scroll-linked effects\<close>

subsection \<open>Hero fade\<close>

text \<open>
  \<^verbatim>\<open>updateHeroFade\<close> reads \<^verbatim>\<open>window.scrollY\<close> (a finite double) and
  \<^verbatim>\<open>header.offsetHeight\<close> (an integer number of pixels, never negative) and writes the
  opacity and the transform of the hero. The record holds the three numbers written:
  the opacity, the \<^verbatim>\<open>translateY\<close> offset and the \<^verbatim>\<open>scale\<close> factor.
\<close>

record hero_style =
  opacity :: jsnum
  translateY :: jsnum
  scale :: jsnum

definition fadeProgress :: "real \<Rightarrow> nat \<Rightarrow> jsnum" where
  "fadeProgress scrollY headerHeight =
     (let fadeStart = Val 50;
          fadeEnd = js_mul (Val (real headerHeight)) (Val 0.8)
      in js_max (Val 0) (js_min (Val 1)
           (js_div (js_sub (Val scrollY) fadeStart) (js_sub fadeEnd fadeStart))))"

definition updateHeroFade :: "real \<Rightarrow> nat \<Rightarrow> hero_style" where
  "updateHeroFade scrollY headerHeight =
     (let easedFade = js_sub (Val 1) (js_pow (js_sub (Val 1) (fadeProgress scrollY headerHeight)) 3);
          translateAmount = Val 40;
          scaleAmount = Val 0.02
      in \<lparr> opacity = js_sub (Val 1) easedFade,
           translateY = js_mul (js_neg easedFade) translateAmount,
           scale = js_sub (Val 1) (js_mul easedFade scaleAmount) \<rparr>)"

subsection \<open>Floating orbs\<close>

text \<open>
  \<^verbatim>\<open>updateOrbPositions\<close> reads the top of the section's bounding rectangle (a finite
  double), the section's \<^verbatim>\<open>offsetHeight\<close> (an integer, never negative) and the window's
  width (through \<^verbatim>\<open>isMobile\<close>), and writes a translation and an opacity to every orb.
  \<open>updateOrb\<close> is the body of the \<^verbatim>\<open>forEach\<close> callback for the orb at \<open>index\<close>,
  its three results computed by \<open>orbXpos\<close>, \<open>orbYpos\<close> and \<open>orbOpacity\<close>.
\<close>

record orb_style =
  orbX :: jsnum
  orbY :: jsnum
  orb_opacity :: jsnum

definition scrollProgress :: "real \<Rightarrow> nat \<Rightarrow> jsnum" where
  "scrollProgress rectTop sectionHeight = js_div (js_neg (Val rectTop)) (Val (real sectionHeight))"

definition orbYpos :: "real \<Rightarrow> nat \<Rightarrow> bool \<Rightarrow> nat \<Rightarrow> jsnum" where
  "orbYpos rectTop sectionHeight isMobile index =
     (let sectionH = Val (real sectionHeight);
          idx = Val (real index);
          scrollIntoSection = js_neg (Val rectTop);
          startY = js_add (js_mul sectionH (Val 0.7)) (js_mul idx (Val (if isMobile then 60 else 80)));
          speed = (if isMobile then js_add (Val 0.6) (js_mul idx (Val 0.1))
                   else js_add (Val 0.8) (js_mul idx (Val 0.15)))
      in js_sub startY (js_mul scrollIntoSection speed))"

definition orbXpos :: "real \<Rightarrow> nat \<Rightarrow> bool \<Rightarrow> nat \<Rightarrow> jsnum" where
  "orbXpos rectTop sectionHeight isMobile index =
     (let idx = Val (real index);
          baseX = js_add
                    (js_mul (js_sub (Val (real (index mod 4))) (Val 1.5))
                            (Val (if isMobile then 150 else 200)))
                    (js_mul idx (Val (if isMobile then 20 else 30)));
          wobble = js_mul
                     (js_sin (js_add (js_mul (js_mul (scrollProgress rectTop sectionHeight) (Val pi)) (Val 2)) idx))
                     (Val (if isMobile then 12 else 20))
      in js_add baseX wobble)"

definition orbOpacity :: "real \<Rightarrow> nat \<Rightarrow> bool \<Rightarrow> nat \<Rightarrow> jsnum" where
  "orbOpacity rectTop sectionHeight isMobile index =
     (let sectionH = Val (real sectionHeight);
          y = orbYpos rectTop sectionHeight isMobile index;
          full = Val (if isMobile then 0.75 else 0.85);
          opacity0 = full;
          opacity1 = (if js_gt y (js_mul sectionH (Val 0.8))
                      then js_mul (js_max (Val 0)
                             (js_sub (Val 1)
                                (js_div (js_sub y (js_mul sectionH (Val 0.8)))
                                        (js_mul sectionH (Val 0.3))))) full
                      else opacity0)
      in if js_lt y (js_mul sectionH (Val 0.1))
         then js_mul (js_max (Val 0) (js_div y (js_mul sectionH (Val 0.1)))) full
         else opacity1)"

definition updateOrb :: "real \<Rightarrow> nat \<Rightarrow> bool \<Rightarrow> nat \<Rightarrow> orb_style" where
  "updateOrb rectTop sectionHeight isMobile index =
     \<lparr> orbX = orbXpos rectTop sectionHeight isMobile index,
       orbY = orbYpos rectTop sectionHeight isMobile index,
       orb_opacity = orbOpacity rectTop sectionHeight isMobile index \<rparr>"

text \<open>The styles written to the \<open>n\<close> orbs of the page, in document order.\<close>

definition updateOrbPositions :: "real \<Rightarrow> nat \<Rightarrow> bool \<Rightarrow> nat \<Rightarrow> orb_style list" where
  "updateOrbPositions rectTop sectionHeight isMobile n =
     map (updateOrb rectTop sectionHeight isMobile) [0..<n]"

subsection \<open>Coalescing scroll events into animation frames\<close>

text \<open>
  \<^verbatim>\<open>initHeroFade\<close> and \<^verbatim>\<open>initOrbParallax\<close> each keep a flag \<^verbatim>\<open>ticking\<close> and register
  \<^verbatim>\<open>requestTick\<close> as the scroll listener; the two copies of \<^verbatim>\<open>requestTick\<close> differ in
  the update function only. A controller holds the flag, the number of its callbacks in
  the browser's list of animation-frame callbacks, the geometry the window reports at
  the moment, the styles last written, and a count of the runs of the update function.
\<close>

record ('g, 'o) controller =
  ticking :: bool
  frame_queue :: nat
  geometry :: 'g
  written :: "'o option"
  recomputes :: nat

definition requestTick :: "('g, 'o) controller \<Rightarrow> ('g, 'o) controller" where
  "requestTick c =
     (if \<not> ticking c then c\<lparr> frame_queue := frame_queue c + 1, ticking := True \<rparr> else c)"

text \<open>The update function reads the geometry of the moment it runs, writes, and clears the flag.\<close>

definition run_update :: "('g \<Rightarrow> 'o) \<Rightarrow> ('g, 'o) controller \<Rightarrow> ('g, 'o) controller" where
  "run_update upd c =
     c\<lparr> written := Some (upd (geometry c)), recomputes := recomputes c + 1, ticking := False \<rparr>"

text \<open>An animation frame runs every callback that was requested before it, once each.\<close>

definition animation_frame :: "('g \<Rightarrow> 'o) \<Rightarrow> ('g, 'o) controller \<Rightarrow> ('g, 'o) controller" where
  "animation_frame upd c = (run_update upd ^^ frame_queue c) (c\<lparr> frame_queue := 0 \<rparr>)"

text \<open>
  The events of a controller: the window scrolls to a new geometry and dispatches the
  scroll event, or the browser renders a frame.
\<close>

datatype 'g scroll_event = Scroll 'g | Frame

fun scroll_step :: "('g \<Rightarrow> 'o) \<Rightarrow> ('g, 'o) controller \<Rightarrow> 'g scroll_event \<Rightarrow> ('g, 'o) controller" where
  "scroll_step upd c (Scroll g) = requestTick (c\<lparr> geometry := g \<rparr>)"
| "scroll_step upd c Frame = animation_frame upd c"

definition scroll_run :: "('g \<Rightarrow> 'o) \<Rightarrow> ('g, 'o) controller \<Rightarrow> 'g scroll_event list \<Rightarrow> ('g, 'o) controller" where
  "scroll_run upd c evs = foldl (scroll_step upd) c evs"

fun is_Frame :: "'g scroll_event \<Rightarrow> bool" where
  "is_Frame Frame = True"
| "is_Frame (Scroll g) = False"

definition listening :: "'g \<Rightarrow> ('g, 'o) controller" where
  "listening g = \<lparr> ticking = False, frame_queue = 0, geometry = g, written = None, recomputes = 0 \<rparr>"

record hero_geometry =
  window_scrollY :: real
  header_offsetHeight :: nat

definition heroUpdate :: "hero_geometry \<Rightarrow> hero_style" where
  "heroUpdate g = updateHeroFade (window_scrollY g) (header_offsetHeight g)"

text \<open>
  \<^verbatim>\<open>initHeroFade\<close> returns before it registers anything when the hero or the header is
  missing, when the user prefers reduced motion, or on a window at most 768 pixels wide.
\<close>

definition initHeroFade :: "bool \<Rightarrow> bool \<Rightarrow> bool \<Rightarrow> nat \<Rightarrow> hero_geometry \<Rightarrow> (hero_geometry, hero_style) controller option" where
  "initHeroFade hero header prefersReducedMotion innerWidth g =
     (if \<not> hero \<or> \<not> header then None
      else if prefersReducedMotion \<or> innerWidth \<le> 768 then None
      else Some (listening g))"

record orb_geometry =
  rect_top :: real
  section_offsetHeight :: nat
  window_innerWidth :: nat

definition orbUpdate :: "nat \<Rightarrow> orb_geometry \<Rightarrow> orb_style list" where
  "orbUpdate n g =
     updateOrbPositions (rect_top g) (section_offsetHeight g) (window_innerWidth g \<le> 768) n"

text \<open>
  \<^verbatim>\<open>initOrbParallax\<close>, for a page with \<open>n\<close> orbs: the same early returns, then the
  listener is registered and \<^verbatim>\<open>updateOrbPositions\<close> is called once directly.
\<close>

definition initOrbParallax :: "bool \<Rightarrow> nat \<Rightarrow> bool \<Rightarrow> nat \<Rightarrow> orb_geometry \<Rightarrow> (orb_geometry, orb_style list) controller option" where
  "initOrbParallax whatIsSection n prefersReducedMotion innerWidth g =
     (if prefersReducedMotion \<or> innerWidth \<le> 768 then None
      else if \<not> whatIsSection \<or> n = 0 then None
      else Some (run_update (orbUpdate n) (listening g)))"

text \<open>
  The flag and the browser's list agree: a callback of the controller is queued exactly
  when \<^verbatim>\<open>ticking\<close> is set, and then only one.
\<close>

definition tick_inv :: "('g, 'o) controller \<Rightarrow> bool" where
  "tick_inv c = (frame_queue c = (if ticking c then 1 else 0))"

text \<open>
  The two controllers of the page after the events \<open>evs\<close>, from the state their
  initialisers leave: \<^verbatim>\<open>initOrbParallax\<close> has run its update once directly.
\<close>

definition hero_controller :: "hero_geometry \<Rightarrow> hero_geometry scroll_event list \<Rightarrow> (hero_geometry, hero_style) controller" where
  "hero_controller g0 evs = scroll_run heroUpdate (listening g0) evs"

definition orb_controller :: "nat \<Rightarrow> orb_geometry \<Rightarrow> orb_geometry scroll_event list \<Rightarrow> (orb_geometry, orb_style list) controller" where
  "orb_controller n g0 evs = scroll_run (orbUpdate n) (run_update (orbUpdate n) (listening g0)) evs"


section \<open>Mobile menu\<close>

text \<open>
  A \<^verbatim>\<open>classList\<close> is an ordered set of tokens: \<^verbatim>\<open>add\<close> appends a token that is not
  there, \<^verbatim>\<open>remove\<close> deletes it, and \<^verbatim>\<open>toggle(token, force)\<close> adds when \<open>force\<close> is true and
  removes when it is false.
\<close>

definition class_add :: "string \<Rightarrow> string list \<Rightarrow> string list" where
  "class_add c cs = (if c \<in> set cs then cs else cs @ [c])"

definition class_remove :: "string \<Rightarrow> string list \<Rightarrow> string list" where
  "class_remove c cs = filter (\<lambda>x. x \<noteq> c) cs"

definition class_toggle :: "string \<Rightarrow> bool \<Rightarrow> string list \<Rightarrow> string list" where
  "class_toggle c force cs = (if force then class_add c cs else class_remove c cs)"

text \<open>
  The state \<^verbatim>\<open>toggleMenu\<close> works on: the two variables of \<^verbatim>\<open>initMobileMenu\<close>, the
  \<^verbatim>\<open>aria-expanded\<close> attribute and the class list of the toggle button (an attribute
  that is absent is \<open>None\<close>), the class lists of the overlay, of the navigation links and
  of the document element, the \<^verbatim>\<open>--scrollbar-width\<close> property of the body (its number of
  pixels), and the focus changes waiting in 50 ms timeouts.
\<close>

datatype focus_target = FirstNavItem | MenuToggle

record menu =
  isMenuOpen :: bool
  scrollbarWidth :: int
  aria_expanded :: "string option"
  toggle_classes :: "string list"
  overlay_classes :: "string list"
  links_classes :: "string list"
  html_classes :: "string list"
  body_scrollbar_width :: "int option"
  focus_timeouts :: "focus_target list"

text \<open>
  \<^verbatim>\<open>setAttribute('aria-expanded', isMenuOpen)\<close> stores the boolean as the string
  \<^verbatim>\<open>true\<close> or \<^verbatim>\<open>false\<close>.
\<close>

definition bool_string :: "bool \<Rightarrow> string" where
  "bool_string b = (if b then ''true'' else ''false'')"

text \<open>
  \<^verbatim>\<open>toggleMenu\<close>; \<open>measured\<close> is what \<^verbatim>\<open>getScrollbarWidth()\<close> returns at the call
  (\<^verbatim>\<open>window.innerWidth\<close> minus the document element's \<^verbatim>\<open>clientWidth\<close>).
\<close>

definition toggleMenu :: "int \<Rightarrow> menu \<Rightarrow> menu" where
  "toggleMenu measured m =
     (let now_open = \<not> isMenuOpen m;
          m1 = m\<lparr> isMenuOpen := now_open,
                  aria_expanded := Some (bool_string now_open),
                  toggle_classes := class_toggle ''active'' now_open (toggle_classes m),
                  overlay_classes := class_toggle ''active'' now_open (overlay_classes m),
                  links_classes := class_toggle ''active'' now_open (links_classes m) \<rparr>
      in if now_open
         then m1\<lparr> scrollbarWidth := measured,
                  body_scrollbar_width := Some measured,
                  html_classes := class_add ''menu-open'' (html_classes m1),
                  focus_timeouts := focus_timeouts m1 @ [FirstNavItem] \<rparr>
         else m1\<lparr> html_classes := class_remove ''menu-open'' (html_classes m1),
                  focus_timeouts := focus_timeouts m1 @ [MenuToggle] \<rparr>)"

definition closeMenu :: "int \<Rightarrow> menu \<Rightarrow> menu" where
  "closeMenu measured m = (if isMenuOpen m then toggleMenu measured m else m)"

text \<open>
  \<^verbatim>\<open>initMobileMenu\<close> returns before it registers a listener when the toggle, the overlay
  or the list of links is missing; otherwise the menu starts closed over the markup
  \<open>markup\<close> of the page.
\<close>

definition initMobileMenu :: "bool \<Rightarrow> bool \<Rightarrow> bool \<Rightarrow> menu \<Rightarrow> menu option" where
  "initMobileMenu menuToggle navOverlay navLinks markup =
     (if \<not> menuToggle \<or> \<not> navOverlay \<or> \<not> navLinks then None
      else Some (markup\<lparr> isMenuOpen := False, scrollbarWidth := 0 \<rparr>))"

text \<open>
  The closed menu as the markup mirrors it: the flag is false, \<^verbatim>\<open>aria-expanded\<close> is
  \<^verbatim>\<open>false\<close>, and neither \<^verbatim>\<open>active\<close> nor \<^verbatim>\<open>menu-open\<close> is set.
\<close>

definition menu_closed :: "menu \<Rightarrow> bool" where
  "menu_closed m =
     (\<not> isMenuOpen m \<and> aria_expanded m = Some ''false'' \<and>
      ''active'' \<notin> set (toggle_classes m) \<and> ''active'' \<notin> set (overlay_classes m) \<and>
      ''active'' \<notin> set (links_classes m) \<and> ''menu-open'' \<notin> set (html_classes m))"


section \<open>Lifecycle panel\<close>

record phase =
  phase_name :: string
  phase_icon :: string
  phase_title :: string
  phase_description :: string

text \<open>
  The \<^verbatim>\<open>phases\<close> array. The two descriptions with the sign \<^verbatim>\<open>>=\<close> written as one
  character hold its three UTF-8 bytes.
\<close>

definition phases :: "phase list" where
  "phases =
     [\<lparr> phase_name = ''seed'', phase_icon = ''fas fa-seedling'', phase_title = ''Seed'',
        phase_description = ''30 days, observation only, owner approval required'' \<rparr>,
      \<lparr> phase_name = ''operational'', phase_icon = ''fas fa-play-circle'', phase_title = ''Operational'',
        phase_description = ''90+ days, accuracy '' @ [CHR 0xE2, CHR 0x89, CHR 0xA5] @ ''75%, full primitive access'' \<rparr>,
      \<lparr> phase_name = ''vetted'', phase_icon = ''fas fa-check-circle'', phase_title = ''Vetted'',
        phase_description = ''180+ days, accuracy '' @ [CHR 0xE2, CHR 0x89, CHR 0xA5] @ ''85%, voting and mentorship'' \<rparr>,
      \<lparr> phase_name = ''prestige'', phase_icon = ''fas fa-crown'', phase_title = ''Prestige'',
        phase_description = ''365+ days, cross-domain influence, 4x rewards'' \<rparr>]"

text \<open>
  The panel: the variables \<^verbatim>\<open>currentPhase\<close> and \<^verbatim>\<open>autoRotateInterval\<close> (\<open>None\<close> while
  undefined), the window's running interval timers (handle and period in milliseconds)
  and the next handle \<^verbatim>\<open>setInterval\<close> will return, the content updates of
  \<^verbatim>\<open>updateDisplay\<close> still waiting in their timeouts (each with the index it was called
  with and the entry \<^verbatim>\<open>phases[phaseIndex]\<close> read at the call, \<open>None\<close> when the index is
  outside the array), and what the display shows: the phase written last and, for
  every indicator of the page in document order, whether it carries the class
  \<^verbatim>\<open>active\<close>. The fade styles of \<^verbatim>\<open>updateDisplay\<close> are left out.
\<close>

record panel =
  currentPhase :: nat
  autoRotateInterval :: "nat option"
  intervals :: "(nat \<times> nat) list"
  next_handle :: nat
  display_timeouts :: "(nat \<times> phase option) list"
  shown :: "phase option"
  indicators_active :: "bool list"

definition phase_at :: "nat \<Rightarrow> phase option" where
  "phase_at i = (if i < length phases then Some (phases ! i) else None)"

definition updateDisplay :: "nat \<Rightarrow> panel \<Rightarrow> panel" where
  "updateDisplay phaseIndex p =
     p\<lparr> display_timeouts := display_timeouts p @ [(phaseIndex, phase_at phaseIndex)] \<rparr>"

definition nextPhase :: "panel \<Rightarrow> panel" where
  "nextPhase p =
     (let p1 = p\<lparr> currentPhase := (currentPhase p + 1) mod length phases \<rparr>
      in updateDisplay (currentPhase p1) p1)"

definition startAutoRotate :: "panel \<Rightarrow> panel" where
  "startAutoRotate p =
     p\<lparr> intervals := intervals p @ [(next_handle p, 4000)],
        autoRotateInterval := Some (next_handle p),
        next_handle := next_handle p + 1 \<rparr>"

text \<open>
  \<^verbatim>\<open>stopAutoRotate\<close> clears the timer whose handle the variable holds, when the variable
  is truthy (a handle is a number; zero would be falsy). The variable keeps the handle.
\<close>

definition stopAutoRotate :: "panel \<Rightarrow> panel" where
  "stopAutoRotate p =
     (case autoRotateInterval p of
        None \<Rightarrow> p
      | Some h \<Rightarrow>
          if h \<noteq> 0 then p\<lparr> intervals := filter (\<lambda>(k, period). k \<noteq> h) (intervals p) \<rparr> else p)"

definition resetAutoRotate :: "panel \<Rightarrow> panel" where
  "resetAutoRotate p = startAutoRotate (stopAutoRotate p)"

definition goToPhase :: "nat \<Rightarrow> panel \<Rightarrow> panel" where
  "goToPhase phaseIndex p =
     (if phaseIndex \<noteq> currentPhase p
      then resetAutoRotate (updateDisplay phaseIndex (p\<lparr> currentPhase := phaseIndex \<rparr>))
      else p)"

text \<open>
  \<^verbatim>\<open>initLifecyclePanel\<close> returns at once when the display, the icon, the title or the
  description is missing or there is no indicator. Otherwise it ends with
  \<^verbatim>\<open>updateDisplay(0, false)\<close> and \<^verbatim>\<open>startAutoRotate()\<close>, on a panel at phase 0 with no
  timer yet: \<open>panel_at_load\<close>. Its argument \<open>indicators\<close> tells, for every element
  that \<^verbatim>\<open>querySelectorAll('.lifecycle-indicator')\<close> returns, whether the markup gives it
  the class \<^verbatim>\<open>active\<close>; the empty list is the page with no indicator. Handles of
  \<^verbatim>\<open>setInterval\<close> are positive.
\<close>

definition panel_at_load :: "bool list \<Rightarrow> panel" where
  "panel_at_load indicators =
     startAutoRotate (updateDisplay 0
       \<lparr> currentPhase = 0, autoRotateInterval = None, intervals = [], next_handle = 1,
         display_timeouts = [], shown = None, indicators_active = indicators \<rparr>)"

definition initLifecyclePanel :: "bool \<Rightarrow> bool \<Rightarrow> bool \<Rightarrow> bool \<Rightarrow> bool list \<Rightarrow> panel option" where
  "initLifecyclePanel display icon title description indicators =
     (if \<not> display \<or> \<not> icon \<or> \<not> title \<or> \<not> description \<or> length indicators = 0 then None
      else Some (panel_at_load indicators))"

text \<open>
  The panel is started from \<^verbatim>\<open>initScrollEffects\<close>, which returns before it calls any of
  its three initialisers when the user prefers reduced motion. Of the three, the panel's
  is the one modelled here.
\<close>

definition initScrollEffects :: "bool \<Rightarrow> bool \<Rightarrow> bool \<Rightarrow> bool \<Rightarrow> bool \<Rightarrow> bool list \<Rightarrow> panel option" where
  "initScrollEffects prefersReducedMotion display icon title description indicators =
     (if prefersReducedMotion then None
      else initLifecyclePanel display icon title description indicators)"

text \<open>
  The events of the panel: an interval timer fires (a cleared timer never does), the
  oldest content timeout fires, the pointer enters or leaves the display, an indicator
  is clicked (only an indicator of the page has a click listener). When the entry read
  at the call was undefined, the timeout's callback throws at its first statement and
  writes nothing. Otherwise it writes the content and, by
  \<^verbatim>\<open>indicator.classList.toggle('active', index === phaseIndex)\<close> on every indicator,
  marks the indicator at \<open>phaseIndex\<close> and no other: none when there are fewer
  indicators than that.
\<close>

definition mark_indicators :: "nat \<Rightarrow> bool list \<Rightarrow> bool list" where
  "mark_indicators phaseIndex flags = map (\<lambda>index. index = phaseIndex) [0..<length flags]"


datatype panel_event =
    IntervalFires nat
  | DisplayTimeout
  | MouseEnter
  | MouseLeave
  | IndicatorClick nat

fun panel_step :: "panel \<Rightarrow> panel_event \<Rightarrow> panel" where
  "panel_step p (IntervalFires h) =
     (if h \<in> fst ` set (intervals p) then nextPhase p else p)"
| "panel_step p DisplayTimeout =
     (case display_timeouts p of
        [] \<Rightarrow> p
      | (i, None) # rest \<Rightarrow> p\<lparr> display_timeouts := rest \<rparr>
      | (i, Some ph) # rest \<Rightarrow>
          p\<lparr> display_timeouts := rest, shown := Some ph,
             indicators_active := mark_indicators i (indicators_active p) \<rparr>)"
| "panel_step p MouseEnter = stopAutoRotate p"
| "panel_step p MouseLeave = startAutoRotate p"
| "panel_step p (IndicatorClick i) =
     (if i < length (indicators_active p) then goToPhase i p else p)"

definition panel_run :: "panel \<Rightarrow> panel_event list \<Rightarrow> panel" where
  "panel_run p evs = foldl panel_step p evs"

text \<open>
  A panel left untouched: no indicator is clicked, and the pointer enters the display
  only from outside and leaves it only from inside. \<open>untouched hovering evs\<close> checks a
  sequence of events that starts with the pointer inside (\<open>hovering\<close>) or outside;
  \<open>hovering_after\<close> tells where the pointer is at its end.
\<close>

fun untouched :: "bool \<Rightarrow> panel_event list \<Rightarrow> bool" where
  "untouched hovering [] = True"
| "untouched hovering (MouseEnter # evs) = (\<not> hovering \<and> untouched True evs)"
| "untouched hovering (MouseLeave # evs) = (hovering \<and> untouched False evs)"
| "untouched hovering (IndicatorClick i # evs) = False"
| "untouched hovering (IntervalFires h # evs) = untouched hovering evs"
| "untouched hovering (DisplayTimeout # evs) = untouched hovering evs"

fun hovering_after :: "bool \<Rightarrow> panel_event list \<Rightarrow> bool" where
  "hovering_after hovering [] = hovering"
| "hovering_after hovering (MouseEnter # evs) = hovering_after True evs"
| "hovering_after hovering (MouseLeave # evs) = hovering_after False evs"
| "hovering_after hovering (ev # evs) = hovering_after hovering evs"

text \<open>
  What holds of a panel left untouched, with the pointer inside the display or outside:
  the index is inside the array, no handle is zero, and the window runs no timer of the
  panel while the pointer is inside and exactly one, of period 4000 ms and held by
  \<^verbatim>\<open>autoRotateInterval\<close>, while it is outside. The content the display is heading for
  is that of the current phase: it is shown already, or the last timeout waiting will
  write it.
\<close>

definition panel_inv :: "bool \<Rightarrow> panel \<Rightarrow> bool" where
  "panel_inv hovering p =
     (currentPhase p < length phases \<and> 0 < next_handle p \<and>
      (if hovering then intervals p = []
       else (case autoRotateInterval p of
               None \<Rightarrow> False
             | Some h \<Rightarrow> h \<noteq> 0 \<and> intervals p = [(h, 4000)])) \<and>
      (case display_timeouts p of
         [] \<Rightarrow> shown p = phase_at (currentPhase p) \<and>
               indicators_active p = mark_indicators (currentPhase p) (indicators_active p)
       | x # xs \<Rightarrow> last (x # xs) = (currentPhase p, phase_at (currentPhase p))))"

text \<open>The pointer after one event.\<close>

fun hover_step :: "bool \<Rightarrow> panel_event \<Rightarrow> bool" where
  "hover_step hovering MouseEnter = True"
| "hover_step hovering MouseLeave = False"
| "hover_step hovering ev = hovering"


section \<open>Waitlist form\<close>

text \<open>
  The page as the submit handler of \<^verbatim>\<open>initWaitlistForm\<close> sees it. A field has the value
  entered and the default that \<^verbatim>\<open>form.reset()\<close> restores. \<open>submitButton\<close> is what
  \<^verbatim>\<open>this.querySelector('button[type="submit"]')\<close> returns: \<open>None\<close> stands for
  \<^verbatim>\<open>null\<close>. The messages the handler appends to the form carry the identity of their
  element. A timeout is kept with the time at which it is due, in milliseconds of the
  page's clock. \<open>awaiting\<close> holds one entry for every handler suspended at
  \<^verbatim>\<open>await fetch(...)\<close>: the \<^verbatim>\<open>originalButtonText\<close> it captured.
\<close>

record field =
  field_name :: string
  field_value :: string
  defaultValue :: string

record button =
  disabled :: bool
  innerHTML :: string
  classList :: "string list"

record message =
  element_id :: nat
  className :: string
  message_html :: string

datatype timer_action =
    RemoveMessage nat
  | ResetButton string
  | RemoveErrorAndResetButton nat string

record form =
  form_fields :: "field list"
  submitButton :: "button option"
  appended :: "message list"
  timers :: "(nat \<times> timer_action) list"
  clock :: nat
  next_element :: nat
  console_errors :: "string list"
  awaiting :: "string list"

text \<open>
  The response of \<^verbatim>\<open>fetch\<close>: the promise resolves with a response, of which the status
  flag \<^verbatim>\<open>ok\<close>, the status code and the body are kept, or it rejects with an error.
\<close>

record response =
  resp_ok :: bool
  resp_status :: nat
  resp_body :: string

datatype fetch_result = Resolved response | Rejected string

datatype js_error = TypeError string

definition sending_html :: string where
  \<open>sending_html = ''<i class="fas fa-spinner fa-spin"></i> Sending...''\<close>

definition thank_you_html :: string where
  \<open>thank_you_html = ''<i class="fas fa-check"></i> Thank You!''\<close>

definition error_html :: string where
  \<open>error_html = ''<i class="fas fa-exclamation-circle"></i> Error''\<close>

definition success_text :: string where
  "success_text = ''Thank you for joining the waitlist! We'll be in touch soon.''"

definition error_text :: string where
  "error_text = ''Oops! Something went wrong. Please try again or email us directly.''"

definition upd_button :: "(button \<Rightarrow> button) \<Rightarrow> form \<Rightarrow> form" where
  "upd_button g f = f\<lparr> submitButton := map_option g (submitButton f) \<rparr>"

definition setTimeout :: "timer_action \<Rightarrow> nat \<Rightarrow> form \<Rightarrow> form" where
  "setTimeout a delay f = f\<lparr> timers := timers f @ [(clock f + delay, a)] \<rparr>"

definition appendChild :: "string \<Rightarrow> string \<Rightarrow> form \<Rightarrow> form" where
  "appendChild cls html f =
     f\<lparr> appended := appended f @ [\<lparr> element_id = next_element f, className = cls, message_html = html \<rparr>],
        next_element := next_element f + 1 \<rparr>"

definition form_reset :: "form \<Rightarrow> form" where
  "form_reset f = f\<lparr> form_fields := map (\<lambda>x. x\<lparr> field_value := defaultValue x \<rparr>) (form_fields f) \<rparr>"

text \<open>
  The handler up to the \<^verbatim>\<open>await\<close>. Reading \<^verbatim>\<open>innerHTML\<close> of \<^verbatim>\<open>null\<close> throws a
  \<^verbatim>\<open>TypeError\<close>; the statement stands before the \<^verbatim>\<open>try\<close> block, so nothing catches it.
  Otherwise the original text is captured and the button shows the loading state.
\<close>

definition submit_begin :: "form \<Rightarrow> js_error + string \<times> form" where
  "submit_begin f =
     (case submitButton f of
        None \<Rightarrow> Inl (TypeError ''Cannot read properties of null'')
      | Some b \<Rightarrow>
          Inr (innerHTML b,
               upd_button (\<lambda>b. b\<lparr> disabled := True, innerHTML := sending_html \<rparr>) f))"

text \<open>The branch of \<^verbatim>\<open>if (response.ok)\<close>.\<close>

definition on_success :: "string \<Rightarrow> form \<Rightarrow> form" where
  "on_success originalButtonText f =
     (let f1 = upd_button (\<lambda>b. b\<lparr> innerHTML := thank_you_html,
                                   classList := class_add ''success'' (classList b) \<rparr>) f;
          f2 = form_reset f1;
          successMessage = next_element f2;
          f3 = appendChild ''form-success'' success_text f2;
          f4 = setTimeout (RemoveMessage successMessage) 5000 f3
      in setTimeout (ResetButton originalButtonText) 3000 f4)"

text \<open>The \<^verbatim>\<open>catch\<close> block; \<open>err\<close> is the message of the error caught.\<close>

definition on_error :: "string \<Rightarrow> string \<Rightarrow> form \<Rightarrow> form" where
  "on_error originalButtonText err f =
     (let f1 = f\<lparr> console_errors := console_errors f @ [err] \<rparr>;
          f2 = upd_button (\<lambda>b. b\<lparr> innerHTML := error_html,
                                   classList := class_add ''error'' (classList b) \<rparr>) f1;
          errorMessage = next_element f2;
          f3 = appendChild ''form-error'' error_text f2
      in setTimeout (RemoveErrorAndResetButton errorMessage originalButtonText) 5000 f3)"

text \<open>
  The handler after the \<^verbatim>\<open>await\<close>: a response with \<^verbatim>\<open>ok\<close> takes the success branch,
  any other response throws \<^verbatim>\<open>Error('Form submission failed')\<close> into the \<^verbatim>\<open>catch\<close>
  block, and a rejected \<^verbatim>\<open>fetch\<close> lands there with its own error.
\<close>

definition submit_resume :: "string \<Rightarrow> fetch_result \<Rightarrow> form \<Rightarrow> form" where
  "submit_resume originalButtonText res f =
     (case res of
        Resolved r \<Rightarrow>
          if resp_ok r then on_success originalButtonText f
          else on_error originalButtonText ''Form submission failed'' f
      | Rejected err \<Rightarrow> on_error originalButtonText err f)"

text \<open>One run of the handler, with the outcome of its \<^verbatim>\<open>fetch\<close>.\<close>

definition submit_handler :: "fetch_result \<Rightarrow> form \<Rightarrow> js_error + form" where
  "submit_handler res f =
     (case submit_begin f of
        Inl e \<Rightarrow> Inl e
      | Inr (originalButtonText, f1) \<Rightarrow> Inr (submit_resume originalButtonText res f1))"

text \<open>The three timeout callbacks of the handler.\<close>

fun fire :: "timer_action \<Rightarrow> form \<Rightarrow> form" where
  "fire (RemoveMessage i) f = f\<lparr> appended := filter (\<lambda>m. element_id m \<noteq> i) (appended f) \<rparr>"
| "fire (ResetButton originalButtonText) f =
     upd_button (\<lambda>b. b\<lparr> disabled := False, innerHTML := originalButtonText,
                        classList := class_remove ''success'' (classList b) \<rparr>) f"
| "fire (RemoveErrorAndResetButton i originalButtonText) f =
     upd_button (\<lambda>b. b\<lparr> disabled := False, innerHTML := originalButtonText,
                        classList := class_remove ''error'' (classList b) \<rparr>)
       (f\<lparr> appended := filter (\<lambda>m. element_id m \<noteq> i) (appended f) \<rparr>)"

text \<open>The callbacks of a list of timeouts, run in the order of the list.\<close>

fun fire_all :: "(nat \<times> timer_action) list \<Rightarrow> form \<Rightarrow> form" where
  "fire_all [] f = f"
| "fire_all ((due, a) # rest) f = fire_all rest (fire a f)"

text \<open>
  Time passes up to \<open>t\<close>: the timeouts due by then run, the earliest first (in the order
  they were set when due together), and the others stay.
\<close>

definition advance :: "nat \<Rightarrow> form \<Rightarrow> form" where
  "advance t f =
     fire_all (sort_key fst (filter (\<lambda>(due, a). due \<le> t) (timers f)))
       (f\<lparr> timers := filter (\<lambda>(due, a). t < due) (timers f), clock := max t (clock f) \<rparr>)"

text \<open>
  The page as a state machine. A submit event reaches the handler through the user only
  (the script never submits the form itself), and the browser lets a disabled submit
  button neither be activated nor stand for the form on an implicit submission: that is
  \<open>can_submit\<close>. A handler that throws leaves the page as it was.
\<close>

definition can_submit :: "form \<Rightarrow> bool" where
  "can_submit f = (case submitButton f of None \<Rightarrow> True | Some b \<Rightarrow> \<not> disabled b)"

datatype form_event =
    Submit
  | Response fetch_result
  | Advance nat
  | Input string string

fun form_step :: "form \<Rightarrow> form_event \<Rightarrow> form" where
  "form_step f Submit =
     (if can_submit f
      then (case submit_begin f of
              Inl e \<Rightarrow> f
            | Inr (originalButtonText, f1) \<Rightarrow> f1\<lparr> awaiting := awaiting f1 @ [originalButtonText] \<rparr>)
      else f)"
| "form_step f (Response res) =
     (case awaiting f of
        [] \<Rightarrow> f
      | originalButtonText # rest \<Rightarrow> submit_resume originalButtonText res (f\<lparr> awaiting := rest \<rparr>))"
| "form_step f (Advance t) = advance t f"
| "form_step f (Input name v) =
     f\<lparr> form_fields := map (\<lambda>x. if field_name x = name then x\<lparr> field_value := v \<rparr> else x) (form_fields f) \<rparr>"

definition form_run :: "form \<Rightarrow> form_event list \<Rightarrow> form" where
  "form_run f evs = foldl form_step f evs"

text \<open>The page when its script has run: nothing appended, no timeout, no request.\<close>

definition page_loaded :: "field list \<Rightarrow> button option \<Rightarrow> form" where
  "page_loaded flds btn =
     \<lparr> form_fields = flds, submitButton = btn, appended = [], timers = [], clock = 0,
       next_element = 0, console_errors = [], awaiting = [] \<rparr>"

definition btn_disabled :: "form \<Rightarrow> bool" where
  "btn_disabled f = (case submitButton f of None \<Rightarrow> False | Some b \<Rightarrow> disabled b)"

fun resets_button :: "timer_action \<Rightarrow> bool" where
  "resets_button (RemoveMessage i) = False"
| "resets_button (ResetButton originalButtonText) = True"
| "resets_button (RemoveErrorAndResetButton i originalButtonText) = True"

text \<open>
  A submission is under way from the start of its handler until its reset timeout has
  run: its handler is suspended at the \<^verbatim>\<open>await\<close>, or a timeout that resets the button
  is pending.
\<close>

definition busy :: "form \<Rightarrow> bool" where
  "busy f = (awaiting f \<noteq> [] \<or> list_ex (\<lambda>(due, a). resets_button a) (timers f))"

text \<open>The message element a timeout's callback removes, if it removes one.\<close>

fun removed_id :: "timer_action \<Rightarrow> nat option" where
  "removed_id (RemoveMessage i) = Some i"
| "removed_id (ResetButton originalButtonText) = None"
| "removed_id (RemoveErrorAndResetButton i originalButtonText) = Some i"

text \<open>What a timeout's callback does to the button.\<close>

fun button_reset :: "timer_action \<Rightarrow> button \<Rightarrow> button" where
  "button_reset (RemoveMessage i) b = b"
| "button_reset (ResetButton originalButtonText) b =
     b\<lparr> disabled := False, innerHTML := originalButtonText,
        classList := class_remove ''success'' (classList b) \<rparr>"
| "button_reset (RemoveErrorAndResetButton i originalButtonText) b =
     b\<lparr> disabled := False, innerHTML := originalButtonText,
        classList := class_remove ''error'' (classList b) \<rparr>"

text \<open>
  Element identities are handed out in order: every message appended and every message
  a pending timeout will remove has an identity below \<^verbatim>\<open>next_element\<close>.
\<close>

definition ids_in_order :: "form \<Rightarrow> bool" where
  "ids_in_order f =
     (list_all (\<lambda>(due, a). case removed_id a of None \<Rightarrow> True | Some i \<Rightarrow> i < next_element f) (timers f) \<and>
      list_all (\<lambda>m. element_id m < next_element f) (appended f))"

text \<open>
  A submission ends in failure when the response is not \<^verbatim>\<open>ok\<close> or \<^verbatim>\<open>fetch\<close> rejects;
  \<open>error_of\<close> is the message of the error the \<^verbatim>\<open>catch\<close> block receives then.
\<close>

fun failed :: "fetch_result \<Rightarrow> bool" where
  "failed (Resolved r) = (\<not> resp_ok r)"
| "failed (Rejected err) = True"

fun error_of :: "fetch_result \<Rightarrow> string" where
  "error_of (Resolved r) = ''Form submission failed''"
| "error_of (Rejected err) = err"

text \<open>
  The times at which the pending timeouts that reset the button are due, and what every
  state the page can reach satisfies: identities are in order, at most one submission
  is under way (suspended at its \<^verbatim>\<open>await\<close>, or waiting for its reset timeout), and
  the button is disabled while one is.
\<close>

definition reset_due :: "form \<Rightarrow> nat list" where
  "reset_due f = map fst (filter (\<lambda>(due, a). resets_button a) (timers f))"

definition form_inv :: "form \<Rightarrow> bool" where
  "form_inv f =
     (ids_in_order f \<and> length (awaiting f) + length (reset_due f) \<le> 1 \<and>
      (busy f \<longrightarrow> btn_disabled f))"

text \<open>A sequence of events with no response in it.\<close>

fun no_response :: "form_event list \<Rightarrow> bool" where
  "no_response [] = True"
| "no_response (Response res # evs) = False"
| "no_response (ev # evs) = no_response evs"


section \<open>Properties of the scroll-linked effects\<close>

subsection \<open>Ranges of the written values\<close>

text \<open>
  The divisor of the hero's fade progress is \<open>0.8 * headerHeight - 50\<close>. It would vanish
  at a header height of 62.5 pixels only, which no integer height is.
\<close>

lemma header_divisor_nonzero: "real n * 0.8 - 50 \<noteq> 0"
proof
  assume "real n * 0.8 - 50 = 0"
  then have "real (2 * n) = real 125" by simp
  then have "2 * n = 125" by (simp only: of_nat_eq_iff)
  then show False by presburger
qed

lemma fadeProgress_Val:
  "\<exists>p. fadeProgress scrollY headerHeight = Val p \<and> 0 \<le> p \<and> p \<le> 1"
  using header_divisor_nonzero [of headerHeight]
  by (simp add: fadeProgress_def js_sub_def)

lemma easedFade_Val:
  assumes "fadeProgress scrollY headerHeight = Val p" "0 \<le> p" "p \<le> 1"
  shows "updateHeroFade scrollY headerHeight =
           \<lparr> opacity = Val ((1 - p) ^ 3),
             translateY = Val (- (1 - (1 - p) ^ 3) * 40),
             scale = Val (1 - (1 - (1 - p) ^ 3) * 0.02) \<rparr>"
  by (simp add: updateHeroFade_def assms(1) js_sub_def js_pow_def Let_def)

lemma hero_opacity_unit: "in_unit (opacity (updateHeroFade scrollY headerHeight))"
proof -
  obtain p where p: "fadeProgress scrollY headerHeight = Val p" "0 \<le> p" "p \<le> 1"
    using fadeProgress_Val by blast
  have "0 \<le> (1 - p) ^ 3" using p by simp
  moreover have "(1 - p) ^ 3 \<le> 1" using p by (simp add: power_le_one)
  ultimately show ?thesis
    by (simp add: easedFade_Val [OF p])
qed

lemma hero_style_finite:
  "js_finite (opacity (updateHeroFade scrollY headerHeight)) \<and>
   js_finite (translateY (updateHeroFade scrollY headerHeight)) \<and>
   js_finite (scale (updateHeroFade scrollY headerHeight))"
proof -
  obtain p where p: "fadeProgress scrollY headerHeight = Val p" "0 \<le> p" "p \<le> 1"
    using fadeProgress_Val by blast
  show ?thesis by (simp add: easedFade_Val [OF p])
qed

lemma orbYpos_Val: "\<exists>y. orbYpos rectTop sectionHeight isMobile index = Val y"
  by (simp add: orbYpos_def js_sub_def Let_def)

lemma orb_opacity_unit: "in_unit (orbOpacity rectTop sectionHeight isMobile index)"
proof -
  obtain y where y: "orbYpos rectTop sectionHeight isMobile index = Val y"
    using orbYpos_Val by blast
  define h where "h = real sectionHeight"
  have h0: "0 \<le> h" by (simp add: h_def)
  show ?thesis
  proof (cases "h = 0")
    case True
    then show ?thesis
      using y by (simp add: orbOpacity_def Let_def js_gt_def js_sub_def h_def)
  next
    case False
    then have hpos: "0 < h" using h0 by simp
    have far: "y < h * 0.1 \<Longrightarrow> y / (h * 0.1) \<le> 1"
      using hpos by (simp add: divide_le_eq)
    have near: "h * 0.8 < y \<Longrightarrow> 0 \<le> (y - h * 0.8) / (h * 0.3)"
      using hpos by simp
    show ?thesis
      using y hpos far near
      by (simp add: orbOpacity_def Let_def js_gt_def js_sub_def h_def [symmetric]
            mult_le_one)
  qed
qed

lemma in_unit_finite: "in_unit a \<Longrightarrow> js_finite a"
  by (cases a) simp_all

lemma orbXpos_finite:
  "0 < sectionHeight \<Longrightarrow> js_finite (orbXpos rectTop sectionHeight isMobile index)"
  by (simp add: orbXpos_def scrollProgress_def js_sub_def Let_def)

text \<open>
  C1. Whatever the scroll position and the geometry, the opacity that \<^verbatim>\<open>updateHeroFade\<close>
  writes to the hero and the opacity that \<^verbatim>\<open>updateOrbPositions\<close> writes to each orb are
  numbers between 0 and 1, both included.
\<close>

theorem written_opacities_in_unit_interval:
  "in_unit (opacity (updateHeroFade scrollY headerHeight)) \<and>
   list_all (\<lambda>st. in_unit (orb_opacity st))
     (updateOrbPositions rectTop sectionHeight isMobile n)"
  by (simp add: hero_opacity_unit updateOrbPositions_def updateOrb_def list_all_iff
        orb_opacity_unit)

text \<open>
  C2, as the claim states it, fails: the quotient \<^verbatim>\<open>scrollProgress\<close> of
  \<^verbatim>\<open>updateOrbPositions\<close> is written with no clamp and no test of the height. On a
  section of height zero at the top of the viewport (a hidden section reports both as
  zero) it is \<^verbatim>\<open>0 / 0\<close>, and the horizontal offset written into the orb's transform is
  \<^verbatim>\<open>NaN\<close>. On a section 600 pixels high whose top is 1200 pixels above the viewport
  it is 2, outside the unit interval.
\<close>

theorem scrollProgress_unguarded_counterexample:
  "scrollProgress 0 0 = NaN \<and> orbX (updateOrb 0 0 False 0) = NaN \<and>
   scrollProgress (- 1200) 600 = Val 2"
  by (simp add: scrollProgress_def updateOrb_def orbXpos_def js_sub_def Let_def)

text \<open>
  C2, amended. The fade progress of \<^verbatim>\<open>updateHeroFade\<close> is clamped to the unit interval
  and the three numbers written to the hero are finite, for every header height, zero
  included. \<^verbatim>\<open>updateOrbPositions\<close> writes a finite vertical offset and a finite opacity
  to every orb for every section height, zero included; the horizontal offset, which
  goes through the unclamped \<^verbatim>\<open>scrollProgress\<close>, is finite when the section height is
  positive.
\<close>

theorem written_values_finite:
  "in_unit (fadeProgress scrollY headerHeight) \<and>
   js_finite (opacity (updateHeroFade scrollY headerHeight)) \<and>
   js_finite (translateY (updateHeroFade scrollY headerHeight)) \<and>
   js_finite (scale (updateHeroFade scrollY headerHeight)) \<and>
   js_finite (orbY (updateOrb rectTop sectionHeight isMobile index)) \<and>
   js_finite (orb_opacity (updateOrb rectTop sectionHeight isMobile index)) \<and>
   (0 < sectionHeight \<longrightarrow> js_finite (orbX (updateOrb rectTop sectionHeight isMobile index)))"
proof -
  obtain p where p: "fadeProgress scrollY headerHeight = Val p" "0 \<le> p" "p \<le> 1"
    using fadeProgress_Val by blast
  obtain y where y: "orbYpos rectTop sectionHeight isMobile index = Val y"
    using orbYpos_Val by blast
  have "in_unit (fadeProgress scrollY headerHeight)" using p by simp
  moreover have "js_finite (orbY (updateOrb rectTop sectionHeight isMobile index))"
    by (simp add: updateOrb_def y)
  moreover have "js_finite (orb_opacity (updateOrb rectTop sectionHeight isMobile index))"
    by (simp add: updateOrb_def in_unit_finite [OF orb_opacity_unit])
  moreover have "0 < sectionHeight \<longrightarrow> js_finite (orbX (updateOrb rectTop sectionHeight isMobile index))"
    by (simp add: updateOrb_def orbXpos_finite)
  ultimately show ?thesis
    using hero_style_finite [of scrollY headerHeight] by blast
qed

theorem written_values_finite_witness:
  "in_unit (fadeProgress 60 80) \<and>
   js_finite (orbX (updateOrb (- 100) 600 False 3)) \<and>
   js_finite (orb_opacity (updateOrb (- 100) 0 False 3))"
  using written_values_finite [of 60 80 "- 100" 600 False 3]
        written_values_finite [of 60 80 "- 100" 0 False 3]
  by simp

subsection \<open>One recompute for each animation frame\<close>

text \<open>
  The two initialisers register nothing when an element they need is missing, and
  otherwise leave the controller as the runs below take it.
\<close>

lemma initHeroFade_guard:
  "initHeroFade False header prefersReducedMotion innerWidth g = None \<and>
   initHeroFade hero False prefersReducedMotion innerWidth g = None \<and>
   initHeroFade True True False 1280 g = Some (listening g)"
  by (simp add: initHeroFade_def)

lemma initOrbParallax_guard:
  "initOrbParallax False n prefersReducedMotion innerWidth g = None \<and>
   initOrbParallax whatIsSection 0 prefersReducedMotion innerWidth g = None \<and>
   initOrbParallax True 8 False 1280 g = Some (run_update (orbUpdate 8) (listening g))"
  by (simp add: initOrbParallax_def)

lemma tick_inv_step: "tick_inv c \<Longrightarrow> tick_inv (scroll_step upd c ev)"
  by (cases ev) (auto simp: tick_inv_def requestTick_def animation_frame_def run_update_def)

lemma tick_inv_run: "tick_inv c \<Longrightarrow> tick_inv (scroll_run upd c evs)"
  unfolding scroll_run_def
  by (induction evs arbitrary: c) (simp_all add: tick_inv_step)

lemma tick_inv_listening: "tick_inv (listening g)"
  by (simp add: tick_inv_def listening_def)

lemma tick_inv_run_update: "tick_inv (run_update upd (listening g))"
  by (simp add: tick_inv_def listening_def run_update_def)

lemma scroll_run_append:
  "scroll_run upd c (xs @ ys) = scroll_run upd (scroll_run upd c xs) ys"
  by (simp add: scroll_run_def)

lemma scroll_while_ticking:
  "ticking c \<Longrightarrow> scroll_step upd c (Scroll g) = c\<lparr> geometry := g \<rparr>"
  by (simp add: requestTick_def)

lemma scrolls_pending:
  "tick_inv c \<Longrightarrow>
   scroll_run upd c (map Scroll (gs @ [g])) = c\<lparr> geometry := g, frame_queue := 1, ticking := True \<rparr>"
proof (induction gs arbitrary: c)
  case Nil
  then show ?case by (auto simp: scroll_run_def requestTick_def tick_inv_def)
next
  case (Cons a gs)
  have inv: "tick_inv (scroll_step upd c (Scroll a))" using Cons.prems by (rule tick_inv_step)
  have "scroll_run upd c (map Scroll ((a # gs) @ [g])) =
        scroll_run upd (scroll_step upd c (Scroll a)) (map Scroll (gs @ [g]))"
    by (simp add: scroll_run_def)
  also have "\<dots> = (scroll_step upd c (Scroll a))\<lparr> geometry := g, frame_queue := 1, ticking := True \<rparr>"
    by (rule Cons.IH [OF inv])
  also have "\<dots> = c\<lparr> geometry := g, frame_queue := 1, ticking := True \<rparr>"
    by (simp add: requestTick_def)
  finally show ?case .
qed

lemma burst_then_frame:
  assumes "tick_inv c"
  shows "scroll_run upd c (map Scroll (gs @ [g]) @ [Frame]) =
           c\<lparr> geometry := g, frame_queue := 0, ticking := False,
              written := Some (upd g), recomputes := recomputes c + 1 \<rparr>"
  by (simp only: scroll_run_append scrolls_pending [OF assms])
     (simp add: scroll_run_def animation_frame_def run_update_def)

lemma frame_at_most_once:
  "tick_inv c \<Longrightarrow> recomputes (scroll_step upd c Frame) \<le> recomputes c + 1"
  by (auto simp: tick_inv_def animation_frame_def run_update_def split: if_splits)

lemma recomputes_step:
  "tick_inv c \<Longrightarrow>
   recomputes (scroll_step upd c ev) \<le> recomputes c + (if is_Frame ev then 1 else 0)"
  by (cases ev) (auto simp: tick_inv_def animation_frame_def run_update_def requestTick_def split: if_splits)

lemma recomputes_run:
  "tick_inv c \<Longrightarrow>
   recomputes (scroll_run upd c evs) \<le> recomputes c + length (filter is_Frame evs)"
proof (induction evs arbitrary: c)
  case Nil
  then show ?case by (simp add: scroll_run_def)
next
  case (Cons ev evs)
  have "recomputes (scroll_run upd c (ev # evs)) = recomputes (scroll_run upd (scroll_step upd c ev) evs)"
    by (simp add: scroll_run_def)
  also have "\<dots> \<le> recomputes (scroll_step upd c ev) + length (filter is_Frame evs)"
    by (rule Cons.IH [OF tick_inv_step [OF Cons.prems]])
  also have "\<dots> \<le> recomputes c + (if is_Frame ev then 1 else 0) + length (filter is_Frame evs)"
    using recomputes_step [OF Cons.prems, of upd ev] by simp
  finally show ?case by (cases "is_Frame ev") simp_all
qed

lemma coalesced:
  assumes "tick_inv c"
  shows "frame_queue c \<le> 1 \<and>
         (ticking c \<longrightarrow> scroll_step upd c (Scroll g) = c\<lparr> geometry := g \<rparr>) \<and>
         frame_queue (scroll_step upd c (Scroll g)) = 1 \<and>
         recomputes (scroll_step upd c Frame) \<le> recomputes c + 1 \<and>
         scroll_run upd c (map Scroll (gs @ [g]) @ [Frame]) =
           c\<lparr> geometry := g, frame_queue := 0, ticking := False,
              written := Some (upd g), recomputes := recomputes c + 1 \<rparr>"
proof -
  have "frame_queue c \<le> 1" using assms by (simp add: tick_inv_def)
  moreover have "frame_queue (scroll_step upd c (Scroll g)) = 1"
    using assms by (simp add: tick_inv_def requestTick_def)
  ultimately show ?thesis
    using scroll_while_ticking [of c upd g] frame_at_most_once [OF assms, of upd]
      burst_then_frame [OF assms, of upd gs g]
    by blast
qed

text \<open>
  C8. In every state the hero's controller and the orbs' controller can reach, at most
  one frame callback is queued; a scroll event that finds the flag set schedules
  nothing (it changes nothing but the geometry the window reports), and after any scroll
  event exactly one callback is queued; a frame runs the update at most once; and any
  burst of scroll events followed by a frame runs the update exactly once, on the
  geometry of the last event. Over a whole run the update has run at most once for each
  frame (and once more for the direct call of \<^verbatim>\<open>initOrbParallax\<close>).
\<close>

theorem scroll_updates_once_per_frame:
  "(let c = hero_controller g0 evs in
      frame_queue c \<le> 1 \<and>
      (ticking c \<longrightarrow> scroll_step heroUpdate c (Scroll g) = c\<lparr> geometry := g \<rparr>) \<and>
      frame_queue (scroll_step heroUpdate c (Scroll g)) = 1 \<and>
      recomputes (scroll_step heroUpdate c Frame) \<le> recomputes c + 1 \<and>
      scroll_run heroUpdate c (map Scroll (gs @ [g]) @ [Frame]) =
        c\<lparr> geometry := g, frame_queue := 0, ticking := False,
           written := Some (updateHeroFade (window_scrollY g) (header_offsetHeight g)),
           recomputes := recomputes c + 1 \<rparr> \<and>
      recomputes c \<le> length (filter is_Frame evs)) \<and>
   (let c = orb_controller n o0 ovs in
      frame_queue c \<le> 1 \<and>
      (ticking c \<longrightarrow> scroll_step (orbUpdate n) c (Scroll og) = c\<lparr> geometry := og \<rparr>) \<and>
      frame_queue (scroll_step (orbUpdate n) c (Scroll og)) = 1 \<and>
      recomputes (scroll_step (orbUpdate n) c Frame) \<le> recomputes c + 1 \<and>
      scroll_run (orbUpdate n) c (map Scroll (ogs @ [og]) @ [Frame]) =
        c\<lparr> geometry := og, frame_queue := 0, ticking := False,
           written := Some (updateOrbPositions (rect_top og) (section_offsetHeight og)
                              (window_innerWidth og \<le> 768) n),
           recomputes := recomputes c + 1 \<rparr> \<and>
      recomputes c \<le> 1 + length (filter is_Frame ovs))"
proof -
  have h: "tick_inv (hero_controller g0 evs)"
    unfolding hero_controller_def by (rule tick_inv_run [OF tick_inv_listening])
  have ob: "tick_inv (orb_controller n o0 ovs)"
    unfolding orb_controller_def by (rule tick_inv_run [OF tick_inv_run_update])
  have hr: "recomputes (hero_controller g0 evs) \<le> length (filter is_Frame evs)"
    unfolding hero_controller_def
    using recomputes_run [OF tick_inv_listening, of heroUpdate g0 evs]
    by (simp add: listening_def)
  have obr: "recomputes (orb_controller n o0 ovs) \<le> 1 + length (filter is_Frame ovs)"
    unfolding orb_controller_def
    using recomputes_run [OF tick_inv_run_update, of "orbUpdate n" "orbUpdate n" o0 ovs]
    by (simp add: listening_def run_update_def)
  show ?thesis
    unfolding Let_def
    using coalesced [OF h, of heroUpdate g gs] coalesced [OF ob, of "orbUpdate n" og ogs] hr obr
    by (simp add: heroUpdate_def orbUpdate_def)
qed

theorem scroll_updates_once_per_frame_witness:
  "scroll_step heroUpdate
     (hero_controller \<lparr> window_scrollY = 0, header_offsetHeight = 80 \<rparr>
        [Scroll \<lparr> window_scrollY = 10, header_offsetHeight = 80 \<rparr>])
     (Scroll \<lparr> window_scrollY = 25, header_offsetHeight = 80 \<rparr>) =
   (hero_controller \<lparr> window_scrollY = 0, header_offsetHeight = 80 \<rparr>
        [Scroll \<lparr> window_scrollY = 10, header_offsetHeight = 80 \<rparr>])
     \<lparr> geometry := \<lparr> window_scrollY = 25, header_offsetHeight = 80 \<rparr> \<rparr> \<and>
   ticking (orb_controller 8 \<lparr> rect_top = 300, section_offsetHeight = 600, window_innerWidth = 1280 \<rparr>
              [Scroll \<lparr> rect_top = 280, section_offsetHeight = 600, window_innerWidth = 1280 \<rparr>]) \<and>
   frame_queue (scroll_step (orbUpdate 8)
     (orb_controller 8 \<lparr> rect_top = 300, section_offsetHeight = 600, window_innerWidth = 1280 \<rparr>
              [Scroll \<lparr> rect_top = 280, section_offsetHeight = 600, window_innerWidth = 1280 \<rparr>])
     (Scroll \<lparr> rect_top = 260, section_offsetHeight = 600, window_innerWidth = 1280 \<rparr>)) = 1"
proof -
  have t1: "ticking (hero_controller \<lparr> window_scrollY = 0, header_offsetHeight = 80 \<rparr>
        [Scroll \<lparr> window_scrollY = 10, header_offsetHeight = 80 \<rparr>])"
    by (simp add: hero_controller_def scroll_run_def listening_def requestTick_def)
  have t2: "ticking (orb_controller 8 \<lparr> rect_top = 300, section_offsetHeight = 600, window_innerWidth = 1280 \<rparr>
              [Scroll \<lparr> rect_top = 280, section_offsetHeight = 600, window_innerWidth = 1280 \<rparr>])"
    by (simp add: orb_controller_def scroll_run_def listening_def requestTick_def run_update_def)
  show ?thesis
    using t1 t2
      scroll_updates_once_per_frame [of "\<lparr> window_scrollY = 0, header_offsetHeight = 80 \<rparr>"
        "[Scroll \<lparr> window_scrollY = 10, header_offsetHeight = 80 \<rparr>]"
        "\<lparr> window_scrollY = 25, header_offsetHeight = 80 \<rparr>" "[]"
        8 "\<lparr> rect_top = 300, section_offsetHeight = 600, window_innerWidth = 1280 \<rparr>"
        "[Scroll \<lparr> rect_top = 280, section_offsetHeight = 600, window_innerWidth = 1280 \<rparr>]"
        "\<lparr> rect_top = 260, section_offsetHeight = 600, window_innerWidth = 1280 \<rparr>" "[]"]
    unfolding Let_def by blast
qed

section \<open>Properties of the mobile menu\<close>

lemma initMobileMenu_guard:
  "initMobileMenu False navOverlay navLinks markup = None \<and>
   initMobileMenu menuToggle False navLinks markup = None \<and>
   initMobileMenu menuToggle navOverlay False markup = None \<and>
   initMobileMenu True True True markup = Some (markup\<lparr> isMenuOpen := False, scrollbarWidth := 0 \<rparr>)"
  by (simp add: initMobileMenu_def)

lemma class_add_remove: "c \<notin> set cs \<Longrightarrow> class_remove c (class_add c cs) = cs"
  by (auto simp: class_add_def class_remove_def filter_id_conv)

lemma class_remove_absent: "c \<notin> set (class_remove c cs)"
  by (simp add: class_remove_def)

lemma class_add_present: "c \<in> set (class_add c cs)"
  by (simp add: class_add_def)

text \<open>
  Whatever the markup, a menu that has been opened and closed once is in the closed
  state of \<open>menu_closed\<close>.
\<close>

lemma open_close_is_closed:
  "\<not> isMenuOpen m \<Longrightarrow> menu_closed (toggleMenu w2 (toggleMenu w1 m))"
  by (simp add: menu_closed_def toggleMenu_def Let_def class_toggle_def bool_string_def
        class_remove_absent)

text \<open>
  C6. From the closed state, the first call of \<^verbatim>\<open>toggleMenu\<close> opens the menu
  (\<^verbatim>\<open>aria-expanded\<close> is \<^verbatim>\<open>true\<close>, the toggle, the overlay and the links carry
  \<^verbatim>\<open>active\<close>, the document element carries \<^verbatim>\<open>menu-open\<close>) and the second call gives
  the \<^verbatim>\<open>aria-expanded\<close> attribute, the four class lists and the flag the values they
  had before the first.
\<close>

theorem toggle_twice_restores_aria_and_classes:
  assumes "menu_closed m"
  shows "isMenuOpen (toggleMenu w1 m) \<and>
         aria_expanded (toggleMenu w1 m) = Some ''true'' \<and>
         ''active'' \<in> set (toggle_classes (toggleMenu w1 m)) \<and>
         ''active'' \<in> set (overlay_classes (toggleMenu w1 m)) \<and>
         ''active'' \<in> set (links_classes (toggleMenu w1 m)) \<and>
         ''menu-open'' \<in> set (html_classes (toggleMenu w1 m)) \<and>
         isMenuOpen (toggleMenu w2 (toggleMenu w1 m)) = isMenuOpen m \<and>
         aria_expanded (toggleMenu w2 (toggleMenu w1 m)) = aria_expanded m \<and>
         toggle_classes (toggleMenu w2 (toggleMenu w1 m)) = toggle_classes m \<and>
         overlay_classes (toggleMenu w2 (toggleMenu w1 m)) = overlay_classes m \<and>
         links_classes (toggleMenu w2 (toggleMenu w1 m)) = links_classes m \<and>
         html_classes (toggleMenu w2 (toggleMenu w1 m)) = html_classes m"
proof -
  have closed: "\<not> isMenuOpen m" "aria_expanded m = Some ''false''"
    and absent: "''active'' \<notin> set (toggle_classes m)" "''active'' \<notin> set (overlay_classes m)"
      "''active'' \<notin> set (links_classes m)" "''menu-open'' \<notin> set (html_classes m)"
    using assms by (simp_all add: menu_closed_def)
  have opened: "toggleMenu w1 m =
      m\<lparr> isMenuOpen := True, aria_expanded := Some ''true'',
         toggle_classes := class_add ''active'' (toggle_classes m),
         overlay_classes := class_add ''active'' (overlay_classes m),
         links_classes := class_add ''active'' (links_classes m),
         scrollbarWidth := w1, body_scrollbar_width := Some w1,
         html_classes := class_add ''menu-open'' (html_classes m),
         focus_timeouts := focus_timeouts m @ [FirstNavItem] \<rparr>"
    using closed by (simp add: toggleMenu_def Let_def class_toggle_def bool_string_def)
  show ?thesis
    unfolding opened
    using closed absent
    by (simp add: toggleMenu_def Let_def class_toggle_def bool_string_def
          class_add_remove class_add_present)
qed

theorem toggle_twice_restores_aria_and_classes_witness:
  "menu_closed \<lparr> isMenuOpen = False, scrollbarWidth = 0, aria_expanded = Some ''false'',
       toggle_classes = [''menu-toggle''], overlay_classes = [''nav-overlay''],
       links_classes = [''nav-links''], html_classes = [''js''],
       body_scrollbar_width = None, focus_timeouts = [] \<rparr> \<and>
   toggle_classes (toggleMenu 15 (toggleMenu 15
     \<lparr> isMenuOpen = False, scrollbarWidth = 0, aria_expanded = Some ''false'',
       toggle_classes = [''menu-toggle''], overlay_classes = [''nav-overlay''],
       links_classes = [''nav-links''], html_classes = [''js''],
       body_scrollbar_width = None, focus_timeouts = [] \<rparr>)) = [''menu-toggle''] \<and>
   aria_expanded (toggleMenu 15 (toggleMenu 15
     \<lparr> isMenuOpen = False, scrollbarWidth = 0, aria_expanded = Some ''false'',
       toggle_classes = [''menu-toggle''], overlay_classes = [''nav-overlay''],
       links_classes = [''nav-links''], html_classes = [''js''],
       body_scrollbar_width = None, focus_timeouts = [] \<rparr>)) = Some ''false''"
proof -
  have c: "menu_closed \<lparr> isMenuOpen = False, scrollbarWidth = 0, aria_expanded = Some ''false'',
       toggle_classes = [''menu-toggle''], overlay_classes = [''nav-overlay''],
       links_classes = [''nav-links''], html_classes = [''js''],
       body_scrollbar_width = None, focus_timeouts = [] \<rparr>"
    by (simp add: menu_closed_def)
  show ?thesis
    using c toggle_twice_restores_aria_and_classes [OF c, of 15 15] by simp
qed

section \<open>Properties of the lifecycle panel\<close>

lemma length_phases: "length phases = 4"
  by (simp add: phases_def)

lemma phase_titles: "map phase_title phases = [''Seed'', ''Operational'', ''Vetted'', ''Prestige'']"
  by (simp add: phases_def)

lemma initLifecyclePanel_guard:
  "initLifecyclePanel False icon title description indicators = None \<and>
   initLifecyclePanel display False title description indicators = None \<and>
   initLifecyclePanel display icon False description indicators = None \<and>
   initLifecyclePanel display icon title False indicators = None \<and>
   initLifecyclePanel display icon title description [] = None"
  by (simp add: initLifecyclePanel_def)

lemma mark_indicators_again:
  "mark_indicators i (mark_indicators i flags) = mark_indicators i flags"
  by (simp add: mark_indicators_def)

lemma length_mark_indicators: "length (mark_indicators i flags) = length flags"
  by (simp add: mark_indicators_def)

lemma length_indicators_step:
  "length (indicators_active (panel_step p ev)) = length (indicators_active p)"
proof (cases ev)
  case (IntervalFires h)
  then show ?thesis by (simp add: nextPhase_def updateDisplay_def Let_def)
next
  case DisplayTimeout
  then show ?thesis
    by (simp add: length_mark_indicators split: list.splits option.splits prod.splits)
next
  case MouseEnter
  then show ?thesis by (simp add: stopAutoRotate_def split: option.splits)
next
  case MouseLeave
  then show ?thesis by (simp add: startAutoRotate_def)
next
  case (IndicatorClick i)
  then show ?thesis
    by (simp add: goToPhase_def resetAutoRotate_def startAutoRotate_def stopAutoRotate_def
          updateDisplay_def split: option.splits)
qed

lemma length_indicators_run:
  "length (indicators_active (panel_run p evs)) = length (indicators_active p)"
  unfolding panel_run_def
  by (induction evs arbitrary: p) (simp_all add: length_indicators_step)

lemma panel_inv_init:
  "initLifecyclePanel display icon title description indicators = Some p \<Longrightarrow>
   panel_inv False p \<and> currentPhase p = 0"
  by (auto simp: initLifecyclePanel_def panel_at_load_def panel_inv_def startAutoRotate_def
        updateDisplay_def length_phases split: if_splits)

lemma panel_inv_nextPhase: "panel_inv hovering p \<Longrightarrow> panel_inv hovering (nextPhase p)"
  by (cases "display_timeouts p")
     (auto simp: panel_inv_def nextPhase_def updateDisplay_def Let_def length_phases
        split: option.splits if_splits)

lemma panel_inv_step:
  assumes "panel_inv hovering p" "untouched hovering (ev # evs)"
  shows "panel_inv (hover_step hovering ev) (panel_step p ev)"
proof (cases ev)
  case (IntervalFires h)
  then show ?thesis
    using assms(1) by (simp add: panel_inv_nextPhase)
next
  case DisplayTimeout
  show ?thesis
  proof (cases "display_timeouts p")
    case Nil
    then show ?thesis using assms(1) DisplayTimeout by simp
  next
    case (Cons x xs)
    obtain i ph where x: "x = (i, ph)" by (cases x)
    show ?thesis
    proof (cases xs)
      case Nil
      then show ?thesis
        using assms(1) DisplayTimeout Cons x
        by (cases ph)
           (auto simp: panel_inv_def phase_at_def length_phases mark_indicators_again
              split: option.splits if_splits)
    next
      case (Cons y ys)
      then show ?thesis
        using assms(1) DisplayTimeout \<open>display_timeouts p = x # xs\<close> x
        by (cases ph) (auto simp: panel_inv_def split: option.splits if_splits)
    qed
  qed
next
  case MouseEnter
  then show ?thesis
    using assms
    by (auto simp: panel_inv_def stopAutoRotate_def split: option.splits list.splits if_splits)
next
  case MouseLeave
  then show ?thesis
    using assms
    by (auto simp: panel_inv_def startAutoRotate_def split: option.splits list.splits if_splits)
next
  case (IndicatorClick i)
  then show ?thesis using assms(2) by simp
qed

lemma untouched_tail:
  "untouched hovering (ev # evs) \<Longrightarrow> untouched (hover_step hovering ev) evs"
  by (cases ev) simp_all

lemma hovering_after_Cons:
  "hovering_after hovering (ev # evs) = hovering_after (hover_step hovering ev) evs"
  by (cases ev) simp_all

lemma panel_inv_run:
  "panel_inv hovering p \<Longrightarrow> untouched hovering evs \<Longrightarrow>
   panel_inv (hovering_after hovering evs) (panel_run p evs)"
proof (induction evs arbitrary: hovering p)
  case Nil
  then show ?case by (simp add: panel_run_def)
next
  case (Cons ev evs)
  have "panel_inv (hovering_after (hover_step hovering ev) evs)
          (panel_run (panel_step p ev) evs)"
    by (rule Cons.IH [OF panel_inv_step [OF Cons.prems] untouched_tail [OF Cons.prems(2)]])
  then show ?case by (simp add: panel_run_def hovering_after_Cons)
qed

lemma stopped_while_hovering:
  "panel_inv True p \<Longrightarrow> intervals p = [] \<and> panel_step p (IntervalFires h) = p"
  by (simp add: panel_inv_def)

lemma running_while_outside:
  assumes "panel_inv False p"
  shows "\<exists>h. intervals p = [(h, 4000)] \<and> autoRotateInterval p = Some h \<and>
             currentPhase (panel_step p (IntervalFires h)) = (currentPhase p + 1) mod 4"
  using assms
  by (auto simp: panel_inv_def nextPhase_def updateDisplay_def Let_def length_phases
        split: option.splits)

lemma display_catches_up:
  "panel_inv hovering p \<Longrightarrow>
   shown (panel_run p (replicate (length (display_timeouts p)) DisplayTimeout)) =
     Some (phases ! currentPhase p) \<and>
   indicators_active (panel_run p (replicate (length (display_timeouts p)) DisplayTimeout)) =
     mark_indicators (currentPhase p) (indicators_active p)"
proof (induction "length (display_timeouts p)" arbitrary: p)
  case 0
  then show ?case by (simp add: panel_run_def panel_inv_def phase_at_def)
next
  case (Suc n)
  then obtain x xs where dt: "display_timeouts p = x # xs" by (cases "display_timeouts p") auto
  define q where "q = panel_step p DisplayTimeout"
  have u: "untouched hovering [DisplayTimeout]" by simp
  have inv: "panel_inv hovering q"
    using panel_inv_step [OF Suc.prems u] by (simp add: q_def)
  have len: "n = length (display_timeouts q)"
    unfolding q_def using Suc.hyps(2) dt by (cases x; cases "snd x") auto
  have cur: "currentPhase q = currentPhase p"
    unfolding q_def using dt by (cases x; cases "snd x") auto
  have flags: "length (indicators_active q) = length (indicators_active p)"
    unfolding q_def by (rule length_indicators_step)
  have "shown (panel_run q (replicate (length (display_timeouts q)) DisplayTimeout)) =
          Some (phases ! currentPhase q) \<and>
        indicators_active (panel_run q (replicate (length (display_timeouts q)) DisplayTimeout)) =
          mark_indicators (currentPhase q) (indicators_active q)"
    by (rule Suc.hyps(1) [OF len inv])
  moreover have "panel_run p (replicate (length (display_timeouts p)) DisplayTimeout) =
      panel_run q (replicate n DisplayTimeout)"
    unfolding q_def using Suc.hyps(2) [symmetric] by (simp add: panel_run_def)
  moreover have "mark_indicators (currentPhase q) (indicators_active q) =
      mark_indicators (currentPhase p) (indicators_active p)"
    by (simp add: mark_indicators_def cur flags)
  ultimately show ?case
    by (simp only: len [symmetric] cur)
qed

lemma indicators_at_load:
  "initLifecyclePanel display icon title description indicators = Some p \<Longrightarrow>
   indicators_active p = indicators"
  by (auto simp: initLifecyclePanel_def panel_at_load_def startAutoRotate_def updateDisplay_def
        split: if_splits)

lemma panel_started:
  "initScrollEffects prefersReducedMotion display icon title description indicators = Some p \<Longrightarrow>
   \<not> prefersReducedMotion \<and> initLifecyclePanel display icon title description indicators = Some p"
  by (simp add: initScrollEffects_def split: if_splits)

text \<open>
  C5, as the claim states it, fails in two ways. On a page whose user prefers reduced
  motion \<^verbatim>\<open>initScrollEffects\<close> returns before \<^verbatim>\<open>initLifecyclePanel\<close> is called, so with
  every element of the panel present no timer is ever set and the panel, left
  untouched, never advances. And when the pointer is over the display already as the
  listeners are attached, its first event is a \<^verbatim>\<open>mouseleave\<close>: \<^verbatim>\<open>startAutoRotate\<close> sets a
  second timer beside the first, the \<^verbatim>\<open>mouseenter\<close> that follows clears the second
  only, and with the pointer over the display the first timer fires and the panel
  advances.
\<close>

theorem panel_not_started_counterexample:
  "initScrollEffects True True True True True [True, False, False, False] = None \<and>
   initLifecyclePanel True True True True [True, False, False, False] =
     Some (panel_at_load [True, False, False, False]) \<and>
   intervals (panel_at_load [True, False, False, False]) = [(1, 4000)] \<and>
   untouched True [MouseLeave, MouseEnter] \<and>
   hovering_after True [MouseLeave, MouseEnter] \<and>
   intervals (panel_run (panel_at_load [True, False, False, False]) [MouseLeave]) =
     [(1, 4000), (2, 4000)] \<and>
   intervals (panel_run (panel_at_load [True, False, False, False]) [MouseLeave, MouseEnter]) =
     [(1, 4000)] \<and>
   currentPhase (panel_run (panel_at_load [True, False, False, False]) [MouseLeave, MouseEnter]) = 0 \<and>
   currentPhase (panel_run (panel_at_load [True, False, False, False])
                   [MouseLeave, MouseEnter, IntervalFires 1]) = 1"
  by (simp add: initScrollEffects_def initLifecyclePanel_def panel_at_load_def panel_run_def
        startAutoRotate_def stopAutoRotate_def updateDisplay_def nextPhase_def length_phases
        Let_def)

text \<open>
  C5, amended. When the panel has been started (the user does not prefer reduced motion,
  the display, the icon, the title and the description are there and there is an
  indicator), the pointer is outside the display at that moment, and from there on no
  indicator is clicked and the pointer's \<^verbatim>\<open>mouseenter\<close> and \<^verbatim>\<open>mouseleave\<close> events
  alternate (\<open>untouched False evs\<close>): the array has the four phases Seed, Operational,
  Vetted and Prestige in this order, a firing of the timer moves the index to its
  successor and from the last to the first, and the panel starts at Seed. After any
  such events, while the pointer is inside the display no interval timer runs and a
  firing changes nothing; while it is outside (at the start, and again after it has
  left) exactly one timer runs, its period is 4000 ms, and its firing advances the index
  by one step of the cycle. Once the pending content timeouts have fired, the display
  shows the phase of the index, and of the indicators of the page the one at the index
  is marked active and no other.
\<close>

theorem lifecycle_panel_cycles_and_pauses:
  assumes "initScrollEffects prefersReducedMotion display icon title description indicators = Some p0"
    and "untouched False evs"
  shows "map phase_title phases = [''Seed'', ''Operational'', ''Vetted'', ''Prestige''] \<and>
         currentPhase p0 = 0 \<and>
         currentPhase (panel_run p0 evs) < 4 \<and>
         (hovering_after False evs \<longrightarrow>
            intervals (panel_run p0 evs) = [] \<and>
            panel_step (panel_run p0 evs) (IntervalFires h) = panel_run p0 evs) \<and>
         (\<not> hovering_after False evs \<longrightarrow>
            (\<exists>k. intervals (panel_run p0 evs) = [(k, 4000)] \<and>
                 currentPhase (panel_step (panel_run p0 evs) (IntervalFires k)) =
                   (currentPhase (panel_run p0 evs) + 1) mod 4)) \<and>
         shown (panel_run (panel_run p0 evs)
                  (replicate (length (display_timeouts (panel_run p0 evs))) DisplayTimeout)) =
           Some (phases ! currentPhase (panel_run p0 evs)) \<and>
         indicators_active (panel_run (panel_run p0 evs)
                  (replicate (length (display_timeouts (panel_run p0 evs))) DisplayTimeout)) =
           map (\<lambda>index. index = currentPhase (panel_run p0 evs)) [0..<length indicators]"
proof -
  have init: "initLifecyclePanel display icon title description indicators = Some p0"
    using panel_started [OF assms(1)] by simp
  then have inv0: "panel_inv False p0" and c0: "currentPhase p0 = 0"
    using panel_inv_init by simp_all
  have inv: "panel_inv (hovering_after False evs) (panel_run p0 evs)"
    by (rule panel_inv_run [OF inv0 assms(2)])
  have "currentPhase (panel_run p0 evs) < 4"
    using inv by (simp add: panel_inv_def length_phases)
  moreover have "hovering_after False evs \<longrightarrow>
            intervals (panel_run p0 evs) = [] \<and>
            panel_step (panel_run p0 evs) (IntervalFires h) = panel_run p0 evs"
    using inv stopped_while_hovering by auto
  moreover have "\<not> hovering_after False evs \<longrightarrow>
            (\<exists>k. intervals (panel_run p0 evs) = [(k, 4000)] \<and>
                 currentPhase (panel_step (panel_run p0 evs) (IntervalFires k)) =
                   (currentPhase (panel_run p0 evs) + 1) mod 4)"
    using inv running_while_outside by fastforce
  moreover have "length (indicators_active (panel_run p0 evs)) = length indicators"
    using length_indicators_run [of p0 evs] indicators_at_load [OF init] by simp
  then have "mark_indicators (currentPhase (panel_run p0 evs)) (indicators_active (panel_run p0 evs)) =
      map (\<lambda>index. index = currentPhase (panel_run p0 evs)) [0..<length indicators]"
    by (simp add: mark_indicators_def)
  ultimately show ?thesis
    using phase_titles c0 display_catches_up [OF inv] by simp
qed

theorem lifecycle_panel_cycles_and_pauses_witness:
  "initScrollEffects False True True True True [True, False, False, False] =
     Some (panel_at_load [True, False, False, False]) \<and>
   untouched False [DisplayTimeout, IntervalFires 1, MouseEnter] \<and>
   hovering_after False [DisplayTimeout, IntervalFires 1, MouseEnter] \<and>
   intervals (panel_run (panel_at_load [True, False, False, False])
                [DisplayTimeout, IntervalFires 1, MouseEnter]) = [] \<and>
   panel_step (panel_run (panel_at_load [True, False, False, False])
                 [DisplayTimeout, IntervalFires 1, MouseEnter]) (IntervalFires 1) =
     panel_run (panel_at_load [True, False, False, False])
       [DisplayTimeout, IntervalFires 1, MouseEnter] \<and>
   untouched False [IntervalFires 1, MouseEnter, MouseLeave] \<and>
   \<not> hovering_after False [IntervalFires 1, MouseEnter, MouseLeave] \<and>
   (\<exists>k. intervals (panel_run (panel_at_load [True, False, False, False])
                     [IntervalFires 1, MouseEnter, MouseLeave]) = [(k, 4000)] \<and>
        currentPhase (panel_step (panel_run (panel_at_load [True, False, False, False])
                                    [IntervalFires 1, MouseEnter, MouseLeave])
                        (IntervalFires k)) =
          (currentPhase (panel_run (panel_at_load [True, False, False, False])
                           [IntervalFires 1, MouseEnter, MouseLeave]) + 1) mod 4)"
proof -
  have i: "initScrollEffects False True True True True [True, False, False, False] =
      Some (panel_at_load [True, False, False, False])"
    by (simp add: initScrollEffects_def initLifecyclePanel_def)
  have u1: "untouched False [DisplayTimeout, IntervalFires 1, MouseEnter]"
    and h1: "hovering_after False [DisplayTimeout, IntervalFires 1, MouseEnter]"
    and u2: "untouched False [IntervalFires 1, MouseEnter, MouseLeave]"
    and h2: "\<not> hovering_after False [IntervalFires 1, MouseEnter, MouseLeave]"
    by simp_all
  show ?thesis
    using i u1 h1 u2 h2
      lifecycle_panel_cycles_and_pauses [OF i u1, of 1]
      lifecycle_panel_cycles_and_pauses [OF i u2, of 1]
    by blast
qed


section \<open>Properties of the waitlist form\<close>

subsection \<open>Timeouts\<close>

lemma fire_frame:
  "form_fields (fire a f) = form_fields f \<and> timers (fire a f) = timers f \<and>
   clock (fire a f) = clock f \<and> next_element (fire a f) = next_element f \<and>
   console_errors (fire a f) = console_errors f \<and> awaiting (fire a f) = awaiting f"
  by (cases a) (simp_all add: upd_button_def)

lemma fire_appended:
  "appended (fire a f) = filter (\<lambda>m. removed_id a \<noteq> Some (element_id m)) (appended f)"
  by (cases a) (auto simp: upd_button_def intro: filter_cong)

lemma fire_button: "submitButton (fire a f) = map_option (button_reset a) (submitButton f)"
  by (cases a; cases "submitButton f") (simp_all add: upd_button_def)

lemma button_reset_idle: "\<not> resets_button a \<Longrightarrow> map_option (button_reset a) x = x"
  by (cases a; cases x) simp_all

lemma button_reset_twice:
  "map_option (button_reset a) (map_option (button_reset a) x) = map_option (button_reset a) x"
  by (cases a; cases x) (simp_all add: class_remove_def)

lemma fire_all_frame:
  "form_fields (fire_all xs f) = form_fields f \<and> timers (fire_all xs f) = timers f \<and>
   clock (fire_all xs f) = clock f \<and> next_element (fire_all xs f) = next_element f \<and>
   console_errors (fire_all xs f) = console_errors f \<and> awaiting (fire_all xs f) = awaiting f"
  by (induction xs f rule: fire_all.induct) (simp_all add: fire_frame)

lemma fire_all_appended:
  "appended (fire_all xs f) =
     filter (\<lambda>m. Some (element_id m) \<notin> removed_id ` snd ` set xs) (appended f)"
proof (induction xs f rule: fire_all.induct)
  case (1 f)
  then show ?case by simp
next
  case (2 due a rest f)
  show ?case
    by (simp add: 2 fire_appended) (auto intro: filter_cong)
qed

lemma fire_all_button_idle:
  "\<forall>(due, a) \<in> set xs. \<not> resets_button a \<Longrightarrow> submitButton (fire_all xs f) = submitButton f"
proof (induction xs f rule: fire_all.induct)
  case (1 f)
  then show ?case by simp
next
  case (2 due a rest f)
  then have "submitButton (fire_all rest (fire a f)) = submitButton (fire a f)" by simp
  moreover have "submitButton (fire a f) = submitButton f"
    using 2(2) by (simp add: fire_button button_reset_idle)
  ultimately show ?case by simp
qed

lemma fire_all_button_reset:
  assumes "\<forall>(due, a) \<in> set xs. resets_button a \<longrightarrow> a = A"
    and "\<exists>(due, a) \<in> set xs. resets_button a"
  shows "submitButton (fire_all xs f) = map_option (button_reset A) (submitButton f)"
  using assms
proof (induction xs f rule: fire_all.induct)
  case (1 f)
  then show ?case by simp
next
  case (2 due a rest f)
  have same: "\<forall>(due, a) \<in> set rest. resets_button a \<longrightarrow> a = A" using 2(2) by auto
  show ?case
  proof (cases "\<exists>(due, a) \<in> set rest. resets_button a")
    case True
    have "submitButton (fire_all rest (fire a f)) = map_option (button_reset A) (submitButton (fire a f))"
      by (rule 2(1) [OF same True])
    moreover have "map_option (button_reset A) (submitButton (fire a f)) =
        map_option (button_reset A) (submitButton f)"
    proof (cases "resets_button a")
      case True
      then have "a = A" using 2(2) by simp
      then show ?thesis
        by (simp add: fire_button button_reset_twice)
    next
      case False
      then show ?thesis by (simp add: fire_button button_reset_idle)
    qed
    ultimately show ?thesis by simp
  next
    case False
    then have idle: "\<forall>(due, a) \<in> set rest. \<not> resets_button a" by auto
    have a: "resets_button a" "a = A" using 2(2,3) False by auto
    have "submitButton (fire_all rest (fire a f)) = submitButton (fire a f)"
      by (rule fire_all_button_idle [OF idle])
    then show ?thesis using a by (simp add: fire_button)
  qed
qed

lemma advance_frame:
  "form_fields (advance t f) = form_fields f \<and>
   timers (advance t f) = filter (\<lambda>(due, a). t < due) (timers f) \<and>
   clock (advance t f) = max t (clock f) \<and> next_element (advance t f) = next_element f \<and>
   console_errors (advance t f) = console_errors f \<and> awaiting (advance t f) = awaiting f"
  by (simp add: advance_def fire_all_frame)

lemma advance_appended:
  "appended (advance t f) =
     filter (\<lambda>m. \<not> (\<exists>(due, a) \<in> set (timers f). due \<le> t \<and> removed_id a = Some (element_id m)))
       (appended f)"
  by (simp add: advance_def fire_all_appended) (force intro: filter_cong)

lemma advance_button_idle:
  "\<forall>(due, a) \<in> set (timers f). due \<le> t \<longrightarrow> \<not> resets_button a \<Longrightarrow>
   submitButton (advance t f) = submitButton f"
  unfolding advance_def
  by (subst fire_all_button_idle) auto

lemma advance_button_reset:
  assumes "\<forall>(due, a) \<in> set (timers f). due \<le> t \<longrightarrow> resets_button a \<longrightarrow> a = A"
    and "\<exists>(due, a) \<in> set (timers f). due \<le> t \<and> resets_button a"
  shows "submitButton (advance t f) = map_option (button_reset A) (submitButton f)"
  unfolding advance_def
  using assms by (subst fire_all_button_reset [where A = A]) auto

subsection \<open>One submission at a time\<close>

lemma busy_iff: "busy f \<longleftrightarrow> 0 < length (awaiting f) + length (reset_due f)"
  by (auto simp: busy_def reset_due_def list_ex_iff filter_empty_conv)

lemma reset_due_empty:
  "reset_due f = [] \<longleftrightarrow> (\<forall>(due, a) \<in> set (timers f). \<not> resets_button a)"
  by (auto simp: reset_due_def filter_empty_conv)

lemma form_inv_loaded: "form_inv (page_loaded flds btn)"
  by (simp add: form_inv_def page_loaded_def ids_in_order_def busy_def reset_due_def)

lemma ids_in_order_mono:
  assumes "ids_in_order f" "set (timers g) \<subseteq> set (timers f)" "set (appended g) \<subseteq> set (appended f)"
    "next_element f \<le> next_element g"
  shows "ids_in_order g"
  using assms
  by (fastforce simp: ids_in_order_def list_all_iff split: option.splits)

lemma form_inv_Submit:
  assumes "form_inv f"
  shows "form_inv (form_step f Submit)"
proof (cases "submitButton f")
  case None
  then show ?thesis using assms by (simp add: submit_begin_def)
next
  case (Some b)
  show ?thesis
  proof (cases "disabled b")
    case True
    then show ?thesis using assms Some by (simp add: can_submit_def)
  next
    case False
    then have "\<not> busy f" using assms Some by (auto simp: form_inv_def btn_disabled_def)
    then have idle: "awaiting f = []" "reset_due f = []" by (simp_all add: busy_iff)
    have ids: "ids_in_order f" using assms by (simp add: form_inv_def)
    have step: "form_step f Submit =
        f\<lparr> submitButton := Some (b\<lparr> disabled := True, innerHTML := sending_html \<rparr>),
           awaiting := [innerHTML b] \<rparr>"
      using Some False idle by (simp add: can_submit_def submit_begin_def upd_button_def)
    have "ids_in_order (form_step f Submit)"
      unfolding step by (rule ids_in_order_mono [OF ids]) simp_all
    then show ?thesis
      unfolding step using idle by (simp add: form_inv_def reset_due_def btn_disabled_def)
  qed
qed

lemma ids_in_order_resume:
  assumes "ids_in_order f"
  shows "ids_in_order (submit_resume orig res f)"
proof -
  have "ids_in_order (on_success orig f)"
    using assms
    by (fastforce simp: ids_in_order_def on_success_def upd_button_def form_reset_def
          appendChild_def setTimeout_def Let_def list_all_iff split: option.splits)
  moreover have "\<And>err. ids_in_order (on_error orig err f)"
    using assms
    by (fastforce simp: ids_in_order_def on_error_def upd_button_def
          appendChild_def setTimeout_def Let_def list_all_iff split: option.splits)
  ultimately show ?thesis
    by (simp add: submit_resume_def split: fetch_result.splits)
qed

lemma resume_frame:
  "awaiting (submit_resume orig res f) = awaiting f \<and>
   btn_disabled (submit_resume orig res f) = btn_disabled f \<and>
   reset_due (submit_resume orig res f) =
     reset_due f @ [clock f + (if failed res then 5000 else 3000)]"
  by (cases res; cases "submitButton f")
     (simp_all add: submit_resume_def on_success_def on_error_def upd_button_def form_reset_def
        appendChild_def setTimeout_def Let_def btn_disabled_def reset_due_def)

lemma form_inv_Response:
  assumes "form_inv f"
  shows "form_inv (form_step f (Response res))"
proof (cases "awaiting f")
  case Nil
  then show ?thesis using assms by simp
next
  case (Cons orig rest)
  then have rest: "rest = []" and due: "reset_due f = []"
    using assms by (simp_all add: form_inv_def)
  have dis: "btn_disabled f" using assms Cons by (simp add: form_inv_def busy_def)
  define g where "g = f\<lparr> awaiting := rest \<rparr>"
  have "ids_in_order f" using assms by (simp add: form_inv_def)
  then have "ids_in_order g"
    by (rule ids_in_order_mono) (simp_all add: g_def)
  then have g: "ids_in_order g" "awaiting g = []" "reset_due g = []" "btn_disabled g"
    using rest due dis
    by (simp_all add: g_def reset_due_def btn_disabled_def)
  have "form_step f (Response res) = submit_resume orig res g"
    using Cons by (simp add: g_def)
  then show ?thesis
    using ids_in_order_resume [OF g(1), of orig res] resume_frame [of orig res g] g
    by (simp add: form_inv_def)
qed

lemma filter_at_most_one:
  "length (filter P xs) \<le> 1 \<Longrightarrow> x \<in> set xs \<Longrightarrow> P x \<Longrightarrow> y \<in> set xs \<Longrightarrow> P y \<Longrightarrow> x = y"
proof (induction xs)
  case Nil
  then show ?case by simp
next
  case (Cons z zs)
  show ?case
  proof (cases "P z")
    case True
    then have "filter P zs = []" using Cons.prems(1) by simp
    then have "\<forall>u \<in> set zs. \<not> P u" by (simp add: filter_empty_conv)
    then show ?thesis using Cons.prems by auto
  next
    case False
    then show ?thesis using Cons by auto
  qed
qed

lemma reset_due_advance:
  "reset_due (advance t f) = filter (\<lambda>due. t < due) (reset_due f)"
  by (simp add: reset_due_def advance_frame filter_map comp_def)
     (rule arg_cong [where f = "map fst"], induction "timers f", auto intro: filter_cong)

lemma reset_due_mem:
  "(due, a) \<in> set (timers f) \<Longrightarrow> resets_button a \<Longrightarrow> due \<in> set (reset_due f)"
  by (force simp: reset_due_def)

lemma reset_due_single:
  assumes "reset_due f = [d]" "(due, a) \<in> set (timers f)" "resets_button a"
    "(due', a') \<in> set (timers f)" "resets_button a'"
  shows "due = d \<and> (due', a') = (due, a)"
proof -
  have one: "length (filter (\<lambda>(due, a). resets_button a) (timers f)) \<le> 1"
    using assms(1) by (simp add: reset_due_def flip: length_map [where f = fst])
  have "(due', a') = (due, a)"
    by (rule filter_at_most_one [OF one assms(4) _ assms(2)]) (simp_all add: assms)
  moreover have "due \<in> set (reset_due f)" by (rule reset_due_mem [OF assms(2,3)])
  ultimately show ?thesis using assms(1) by simp
qed

lemma button_reset_enables: "resets_button a \<Longrightarrow> \<not> disabled (button_reset a b)"
  by (cases a) simp_all

lemma advance_keeps_button_before_reset:
  assumes "\<forall>d \<in> set (reset_due f). t < d"
  shows "submitButton (advance t f) = submitButton f"
proof (rule advance_button_idle)
  show "\<forall>(due, a) \<in> set (timers f). due \<le> t \<longrightarrow> \<not> resets_button a"
    using assms reset_due_mem [of _ _ f] by fastforce
qed

lemma advance_enables_at_reset:
  assumes "reset_due f = [d]" "d \<le> t"
  shows "\<not> btn_disabled (advance t f) \<and> reset_due (advance t f) = []"
proof -
  have "d \<in> set (map fst (filter (\<lambda>(due, a). resets_button a) (timers f)))"
    using assms(1) by (simp add: reset_due_def)
  then obtain A where A: "(d, A) \<in> set (timers f)" "resets_button A" by auto
  have same: "\<forall>(due, a) \<in> set (timers f). due \<le> t \<longrightarrow> resets_button a \<longrightarrow> a = A"
    using reset_due_single [OF assms(1) A] by fastforce
  have some: "\<exists>(due, a) \<in> set (timers f). due \<le> t \<and> resets_button a"
    using A assms(2) by auto
  have "submitButton (advance t f) = map_option (button_reset A) (submitButton f)"
    by (rule advance_button_reset [OF same some])
  then have "\<not> btn_disabled (advance t f)"
    using button_reset_enables [OF A(2)]
    by (cases "submitButton f") (simp_all add: btn_disabled_def)
  then show ?thesis using assms by (simp add: reset_due_advance)
qed

lemma form_inv_Advance:
  assumes "form_inv f"
  shows "form_inv (form_step f (Advance t))"
proof -
  have ids: "ids_in_order f" and one: "length (awaiting f) + length (reset_due f) \<le> 1"
    and dis: "busy f \<longrightarrow> btn_disabled f"
    using assms by (simp_all add: form_inv_def)
  have "ids_in_order (advance t f)"
    by (rule ids_in_order_mono [OF ids]) (auto simp: advance_frame advance_appended)
  moreover have "length (awaiting (advance t f)) + length (reset_due (advance t f)) \<le> 1"
  proof -
    have "length (reset_due (advance t f)) \<le> length (reset_due f)"
      by (simp add: reset_due_advance)
    moreover have "awaiting (advance t f) = awaiting f"
      by (simp add: advance_frame)
    ultimately show ?thesis using one by simp
  qed
  moreover have "busy (advance t f) \<longrightarrow> btn_disabled (advance t f)"
  proof
    assume b: "busy (advance t f)"
    have later: "\<forall>d \<in> set (reset_due f). t < d"
    proof (cases "awaiting f")
      case Nil
      then have "filter (\<lambda>due. t < due) (reset_due f) \<noteq> []"
        using b by (simp add: busy_iff advance_frame reset_due_advance)
      moreover have "length (reset_due f) \<le> 1" using one by simp
      ultimately show ?thesis by (cases "reset_due f") (auto split: if_splits)
    next
      case (Cons x xs)
      then show ?thesis using one by simp
    qed
    have "busy f" using b by (auto simp: busy_iff advance_frame reset_due_advance)
    then have "btn_disabled f" using dis by simp
    then show "btn_disabled (advance t f)"
      by (simp add: btn_disabled_def advance_keeps_button_before_reset [OF later])
  qed
  ultimately show ?thesis by (simp add: form_inv_def)
qed

lemma form_inv_Input:
  assumes "form_inv f"
  shows "form_inv (form_step f (Input name v))"
proof -
  have "ids_in_order (form_step f (Input name v))"
    by (rule ids_in_order_mono [where f = f]) (use assms in \<open>simp_all add: form_inv_def\<close>)
  then show ?thesis
    using assms by (simp add: form_inv_def busy_def reset_due_def btn_disabled_def)
qed

lemma form_inv_step: "form_inv f \<Longrightarrow> form_inv (form_step f ev)"
  by (cases ev) (simp_all only: form_inv_Submit form_inv_Response form_inv_Advance form_inv_Input)

lemma form_inv_run: "form_inv f \<Longrightarrow> form_inv (form_run f evs)"
  unfolding form_run_def
  by (induction evs arbitrary: f) (simp_all add: form_inv_step)

lemma busy_blocks_submit: "form_inv f \<Longrightarrow> busy f \<Longrightarrow> btn_disabled f \<and> form_step f Submit = f"
  by (auto simp: form_inv_def btn_disabled_def can_submit_def split: option.splits)

lemma submit_starts:
  assumes "form_inv f" "submitButton f = Some b" "\<not> disabled b"
  shows "awaiting (form_step f Submit) = [innerHTML b] \<and> busy (form_step f Submit) \<and>
         btn_disabled (form_step f Submit)"
proof -
  have "\<not> busy f" using assms by (auto simp: form_inv_def btn_disabled_def)
  then have "awaiting f = []" by (simp add: busy_def)
  then show ?thesis
    using assms(2,3)
    by (simp add: can_submit_def submit_begin_def upd_button_def busy_def btn_disabled_def)
qed

lemma response_sets_reset:
  assumes "form_inv f" "awaiting f \<noteq> []"
  shows "awaiting (form_step f (Response res)) = [] \<and>
         reset_due (form_step f (Response res)) = [clock f + (if failed res then 5000 else 3000)] \<and>
         busy (form_step f (Response res))"
proof -
  obtain orig rest where aw: "awaiting f = orig # rest" using assms(2) by (cases "awaiting f") auto
  then have rest: "rest = []" and due: "reset_due f = []"
    using assms(1) by (simp_all add: form_inv_def)
  define g where "g = f\<lparr> awaiting := rest \<rparr>"
  have g: "awaiting g = []" "reset_due g = []" "clock g = clock f"
    using rest due by (simp_all add: g_def reset_due_def)
  have "form_step f (Response res) = submit_resume orig res g"
    using aw by (simp add: g_def)
  then show ?thesis
    using resume_frame [of orig res g] g by (simp add: busy_iff)
qed

lemma form_inv_reachable: "form_inv (form_run (page_loaded flds btn) evs)"
  by (rule form_inv_run [OF form_inv_loaded])

lemma in_flight_state:
  assumes "form_inv f" "awaiting f \<noteq> []"
  shows "reset_due f = [] \<and> ids_in_order f \<and> (\<exists>b. submitButton f = Some b \<and> disabled b) \<and>
         (\<exists>orig. awaiting f = [orig])"
proof -
  have "busy f" using assms(2) by (simp add: busy_def)
  then have "btn_disabled f" using assms(1) by (simp add: form_inv_def)
  then have "\<exists>b. submitButton f = Some b \<and> disabled b"
    by (cases "submitButton f") (simp_all add: btn_disabled_def)
  moreover obtain orig where orig: "awaiting f = [orig]"
    using assms by (cases "awaiting f") (simp_all add: form_inv_def)
  moreover have "reset_due f = []"
    using assms(1) orig by (simp add: form_inv_def)
  ultimately show ?thesis using assms(1) by (simp add: form_inv_def)
qed

lemma awaiting_step:
  assumes "form_inv f" "awaiting f \<noteq> []" "no_response [ev]"
  shows "awaiting (form_step f ev) = awaiting f"
proof (cases ev)
  case Submit
  have "busy f" using assms(2) by (simp add: busy_def)
  then show ?thesis using busy_blocks_submit [OF assms(1)] Submit by simp
next
  case (Response res)
  then show ?thesis using assms(3) by simp
next
  case (Advance t)
  then show ?thesis by (simp add: advance_frame)
next
  case (Input name v)
  then show ?thesis by simp
qed

lemma no_response_Cons: "no_response (ev # evs) \<longleftrightarrow> no_response [ev] \<and> no_response evs"
  by (cases ev) simp_all

lemma awaiting_in_flight:
  "form_inv f \<Longrightarrow> awaiting f \<noteq> [] \<Longrightarrow> no_response evs \<Longrightarrow>
   awaiting (form_run f evs) = awaiting f"
proof (induction evs arbitrary: f)
  case Nil
  then show ?case by (simp add: form_run_def)
next
  case (Cons ev evs)
  have ev: "no_response [ev]" and evs: "no_response evs"
    using Cons.prems(3) no_response_Cons by blast+
  have step: "awaiting (form_step f ev) = awaiting f"
    by (rule awaiting_step [OF Cons.prems(1,2) ev])
  have "awaiting (form_run (form_step f ev) evs) = awaiting (form_step f ev)"
    by (rule Cons.IH [OF form_inv_step [OF Cons.prems(1)] _ evs]) (simp add: step Cons.prems(2))
  then show ?case by (simp add: form_run_def step)
qed

text \<open>
  The state after the submit event that started a handler and any events that are not
  its response: the handler is still the only one waiting, with the text the button had.
\<close>

lemma waiting_for_response:
  assumes "f0 = form_run (page_loaded flds btn) evs0" "submitButton f0 = Some b0" "\<not> disabled b0"
    "no_response evs1" "f = form_run (form_step f0 Submit) evs1"
  shows "form_inv f \<and> awaiting f = [innerHTML b0]"
proof -
  have inv0: "form_inv f0" unfolding assms(1) by (rule form_inv_reachable)
  have inv1: "form_inv (form_step f0 Submit)" by (rule form_inv_step [OF inv0])
  have aw: "awaiting (form_step f0 Submit) = [innerHTML b0]"
    using submit_starts [OF inv0 assms(2,3)] by simp
  have ne: "awaiting (form_step f0 Submit) \<noteq> []"
    unfolding aw by simp
  have "awaiting f = awaiting (form_step f0 Submit)"
    unfolding assms(5) by (rule awaiting_in_flight [OF inv1 ne assms(4)])
  then show ?thesis
    unfolding assms(5) using form_inv_run [OF inv1] aw by simp
qed

subsection \<open>The two outcomes of a submission\<close>

lemma reset_due_timers: "reset_due f = [] \<Longrightarrow> \<forall>(due, a) \<in> set (timers f). \<not> resets_button a"
  by (simp add: reset_due_empty)

lemma ids_in_order_timers:
  "ids_in_order f \<Longrightarrow> \<forall>(due, a) \<in> set (timers f). removed_id a \<noteq> Some (next_element f)"
  by (fastforce simp: ids_in_order_def list_all_iff split: option.splits)

lemma on_success_eq:
  assumes "submitButton g = Some b"
  shows "on_success orig g =
     g\<lparr> submitButton := Some (b\<lparr> innerHTML := thank_you_html,
                                classList := class_add ''success'' (classList b) \<rparr>),
        form_fields := map (\<lambda>x. x\<lparr> field_value := defaultValue x \<rparr>) (form_fields g),
        appended := appended g @
          [\<lparr> element_id = next_element g, className = ''form-success'',
             message_html = success_text \<rparr>],
        next_element := next_element g + 1,
        timers := timers g @ [(clock g + 5000, RemoveMessage (next_element g)),
                              (clock g + 3000, ResetButton orig)] \<rparr>"
  using assms
  by (simp add: on_success_def upd_button_def form_reset_def appendChild_def setTimeout_def Let_def)

lemma on_error_eq:
  assumes "submitButton g = Some b"
  shows "on_error orig err g =
     g\<lparr> submitButton := Some (b\<lparr> innerHTML := error_html,
                                classList := class_add ''error'' (classList b) \<rparr>),
        console_errors := console_errors g @ [err],
        appended := appended g @
          [\<lparr> element_id = next_element g, className = ''form-error'',
             message_html = error_text \<rparr>],
        next_element := next_element g + 1,
        timers := timers g @ [(clock g + 5000, RemoveErrorAndResetButton (next_element g) orig)] \<rparr>"
  using assms
  by (simp add: on_error_def upd_button_def appendChild_def setTimeout_def Let_def)

lemma resume_failed: "failed res \<Longrightarrow> submit_resume orig res g = on_error orig (error_of res) g"
  by (cases res) (simp_all add: submit_resume_def)

text \<open>The page at time \<open>t\<close> after the success branch has run at time \<open>clock g\<close>.\<close>

lemma success_timeline:
  assumes "submitButton g = Some b" and "reset_due g = []" and "ids_in_order g"
  defines "m \<equiv> \<lparr> element_id = next_element g, className = ''form-success'',
                  message_html = success_text \<rparr>"
    and "b1 \<equiv> b\<lparr> innerHTML := thank_you_html, classList := class_add ''success'' (classList b) \<rparr>"
  shows "(t < clock g + 5000 \<longrightarrow> m \<in> set (appended (advance t (on_success orig g)))) \<and>
         (clock g + 5000 \<le> t \<longrightarrow> m \<notin> set (appended (advance t (on_success orig g)))) \<and>
         (t < clock g + 3000 \<longrightarrow> submitButton (advance t (on_success orig g)) = Some b1) \<and>
         (clock g + 3000 \<le> t \<longrightarrow>
            submitButton (advance t (on_success orig g)) =
              Some (b1\<lparr> disabled := False, innerHTML := orig,
                       classList := class_remove ''success'' (classList b1) \<rparr>))"
proof -
  define g' where "g' = on_success orig g"
  have old_idle: "\<forall>(due, a) \<in> set (timers g). \<not> resets_button a"
    by (rule reset_due_timers [OF assms(2)])
  have old_ids: "\<forall>(due, a) \<in> set (timers g). removed_id a \<noteq> Some (next_element g)"
    by (rule ids_in_order_timers [OF assms(3)])
  have tm: "timers g' = timers g @ [(clock g + 5000, RemoveMessage (next_element g)),
                                   (clock g + 3000, ResetButton orig)]"
    and app: "appended g' = appended g @ [m]" and btn: "submitButton g' = Some b1"
    by (simp_all add: g'_def on_success_eq [OF assms(1)] m_def b1_def)
  have shown: "t < clock g + 5000 \<longrightarrow> m \<in> set (appended (advance t g'))"
    using old_ids by (auto simp: advance_appended tm app m_def)
  have gone: "clock g + 5000 \<le> t \<longrightarrow> m \<notin> set (appended (advance t g'))"
    by (auto simp: advance_appended tm app m_def)
  have early: "t < clock g + 3000 \<longrightarrow> submitButton (advance t g') = Some b1"
  proof
    assume "t < clock g + 3000"
    then have "\<forall>(due, a) \<in> set (timers g'). due \<le> t \<longrightarrow> \<not> resets_button a"
      using old_idle by (auto simp: tm)
    then show "submitButton (advance t g') = Some b1"
      by (simp add: advance_button_idle btn)
  qed
  have late: "clock g + 3000 \<le> t \<longrightarrow>
      submitButton (advance t g') = Some (button_reset (ResetButton orig) b1)"
  proof
    assume t: "clock g + 3000 \<le> t"
    have same: "\<forall>(due, a) \<in> set (timers g'). due \<le> t \<longrightarrow> resets_button a \<longrightarrow> a = ResetButton orig"
      using old_idle by (auto simp: tm)
    have some: "\<exists>(due, a) \<in> set (timers g'). due \<le> t \<and> resets_button a"
      using t by (auto simp: tm)
    show "submitButton (advance t g') = Some (button_reset (ResetButton orig) b1)"
      by (simp add: advance_button_reset [OF same some] btn)
  qed
  show ?thesis
    using shown gone early late unfolding g'_def by simp
qed

text \<open>The page at time \<open>t\<close> after the \<^verbatim>\<open>catch\<close> block has run at time \<open>clock g\<close>.\<close>

lemma failure_timeline:
  assumes "submitButton g = Some b" and "reset_due g = []" and "ids_in_order g"
  defines "m \<equiv> \<lparr> element_id = next_element g, className = ''form-error'',
                  message_html = error_text \<rparr>"
    and "b1 \<equiv> b\<lparr> innerHTML := error_html, classList := class_add ''error'' (classList b) \<rparr>"
  shows "(t < clock g + 5000 \<longrightarrow>
            m \<in> set (appended (advance t (on_error orig err g))) \<and>
            submitButton (advance t (on_error orig err g)) = Some b1) \<and>
         (clock g + 5000 \<le> t \<longrightarrow>
            m \<notin> set (appended (advance t (on_error orig err g))) \<and>
            submitButton (advance t (on_error orig err g)) =
              Some (b1\<lparr> disabled := False, innerHTML := orig,
                       classList := class_remove ''error'' (classList b1) \<rparr>))"
proof -
  define g' where "g' = on_error orig err g"
  define A where "A = RemoveErrorAndResetButton (next_element g) orig"
  have old_idle: "\<forall>(due, a) \<in> set (timers g). \<not> resets_button a"
    by (rule reset_due_timers [OF assms(2)])
  have old_ids: "\<forall>(due, a) \<in> set (timers g). removed_id a \<noteq> Some (next_element g)"
    by (rule ids_in_order_timers [OF assms(3)])
  have tm: "timers g' = timers g @ [(clock g + 5000, A)]"
    and app: "appended g' = appended g @ [m]" and btn: "submitButton g' = Some b1"
    by (simp_all add: g'_def on_error_eq [OF assms(1)] m_def b1_def A_def)
  have A: "resets_button A" "removed_id A = Some (next_element g)"
    by (simp_all add: A_def)
  have early: "t < clock g + 5000 \<longrightarrow>
      m \<in> set (appended (advance t g')) \<and> submitButton (advance t g') = Some b1"
  proof
    assume t: "t < clock g + 5000"
    then have "\<forall>(due, a) \<in> set (timers g'). due \<le> t \<longrightarrow> \<not> resets_button a"
      using old_idle by (auto simp: tm)
    then have "submitButton (advance t g') = Some b1"
      by (simp add: advance_button_idle btn)
    moreover have "m \<in> set (appended (advance t g'))"
      using old_ids t by (auto simp: advance_appended tm app m_def)
    ultimately show "m \<in> set (appended (advance t g')) \<and> submitButton (advance t g') = Some b1"
      by simp
  qed
  have late: "clock g + 5000 \<le> t \<longrightarrow>
      m \<notin> set (appended (advance t g')) \<and>
      submitButton (advance t g') = Some (button_reset A b1)"
  proof
    assume t: "clock g + 5000 \<le> t"
    have same: "\<forall>(due, a) \<in> set (timers g'). due \<le> t \<longrightarrow> resets_button a \<longrightarrow> a = A"
      using old_idle by (auto simp: tm)
    have some: "\<exists>(due, a) \<in> set (timers g'). due \<le> t \<and> resets_button a"
      using t A by (auto simp: tm)
    have "m \<notin> set (appended (advance t g'))"
      using t A by (auto simp: advance_appended tm app m_def)
    then show "m \<notin> set (appended (advance t g')) \<and>
      submitButton (advance t g') = Some (button_reset A b1)"
      by (simp add: advance_button_reset [OF same some] btn)
  qed
  show ?thesis
    using early late unfolding g'_def A_def by simp
qed

text \<open>The response reaches the one handler that is waiting.\<close>

lemma response_step:
  assumes "form_inv f" "awaiting f = [orig]"
  obtains g b where "form_step f (Response res) = submit_resume orig res g"
    and "submitButton g = Some b" and "disabled b" and "submitButton f = Some b"
    and "reset_due g = []" and "ids_in_order g"
    and "form_fields g = form_fields f" and "appended g = appended f"
    and "clock g = clock f" and "next_element g = next_element f"
    and "console_errors g = console_errors f"
proof -
  define g where "g = f\<lparr> awaiting := [] \<rparr>"
  have st: "reset_due f = []" "ids_in_order f" and "\<exists>b. submitButton f = Some b \<and> disabled b"
    using in_flight_state [OF assms(1)] assms(2) by simp_all
  then obtain b where b: "submitButton f = Some b" "disabled b" by blast
  have "ids_in_order g" by (rule ids_in_order_mono [OF st(2)]) (simp_all add: g_def)
  moreover have "form_step f (Response res) = submit_resume orig res g"
    using assms(2) by (simp add: g_def)
  ultimately show ?thesis
    using that [of g b] b st(1) by (simp add: g_def reset_due_def)
qed

text \<open>
  C3. A submission starts on an enabled submit button (after any events since the page
  was loaded), any events but its response follow, and the response is \<^verbatim>\<open>ok\<close>. Then the
  button is there, disabled, and the handler's continuation gives every field its
  default value again (what \<^verbatim>\<open>form.reset()\<close> does) and appends the message of class
  \<^verbatim>\<open>form-success\<close>; the message is still there at every time before 5000 ms have
  passed since the response and gone at every time from then on; the button shows the
  confirmation, still disabled, before 3000 ms have passed, and from then on it is
  enabled, has the text it had when the submission started and no \<^verbatim>\<open>success\<close> class.
\<close>

theorem success_resets_form_and_confirms:
  assumes "f0 = form_run (page_loaded flds btn) evs0"
    and "submitButton f0 = Some b0" and "\<not> disabled b0"
    and "no_response evs1"
    and "f = form_run (form_step f0 Submit) evs1"
    and "resp_ok r"
  shows "case submitButton f of
           None \<Rightarrow> False
         | Some b \<Rightarrow>
           disabled b \<and>
           form_fields (form_step f (Response (Resolved r))) =
             map (\<lambda>x. x\<lparr> field_value := defaultValue x \<rparr>) (form_fields f) \<and>
           appended (form_step f (Response (Resolved r))) = appended f @
             [\<lparr> element_id = next_element f, className = ''form-success'',
                message_html = success_text \<rparr>] \<and>
           (t < clock f + 5000 \<longrightarrow>
              \<lparr> element_id = next_element f, className = ''form-success'',
                message_html = success_text \<rparr>
                \<in> set (appended (advance t (form_step f (Response (Resolved r)))))) \<and>
           (clock f + 5000 \<le> t \<longrightarrow>
              \<lparr> element_id = next_element f, className = ''form-success'',
                message_html = success_text \<rparr>
                \<notin> set (appended (advance t (form_step f (Response (Resolved r)))))) \<and>
           (t < clock f + 3000 \<longrightarrow>
              submitButton (advance t (form_step f (Response (Resolved r)))) =
                Some (b\<lparr> innerHTML := thank_you_html,
                         classList := class_add ''success'' (classList b) \<rparr>)) \<and>
           (clock f + 3000 \<le> t \<longrightarrow>
              submitButton (advance t (form_step f (Response (Resolved r)))) =
                Some (b\<lparr> disabled := False, innerHTML := innerHTML b0,
                         classList := class_remove ''success'' (class_add ''success'' (classList b)) \<rparr>))"
proof -
  have inv: "form_inv f" and aw: "awaiting f = [innerHTML b0]"
    using waiting_for_response [OF assms(1-5)] by simp_all
  obtain g b where step: "form_step f (Response (Resolved r)) = submit_resume (innerHTML b0) (Resolved r) g"
    and g: "submitButton g = Some b" "reset_due g = []" "ids_in_order g"
    and b: "submitButton f = Some b" "disabled b"
    and same: "form_fields g = form_fields f" "appended g = appended f" "clock g = clock f"
      "next_element g = next_element f"
    by (rule response_step [OF inv aw])
  have run: "form_step f (Response (Resolved r)) = on_success (innerHTML b0) g"
    unfolding step using assms(6) by (simp add: submit_resume_def)
  show ?thesis
    unfolding run
    using success_timeline [OF g, of t "innerHTML b0"] b same
    by (simp add: on_success_eq [OF g(1)])
qed

theorem success_resets_form_and_confirms_witness:
  "(let f = form_run (form_step (form_run
               (page_loaded [\<lparr> field_name = ''email'', field_value = [], defaultValue = [] \<rparr>]
                  (Some \<lparr> disabled = False, innerHTML = ''Join Waitlist'', classList = [''btn''] \<rparr>))
               [Input ''email'' ''ada@example.org'']) Submit) [Advance 200];
        f' = form_step f (Response (Resolved \<lparr> resp_ok = True, resp_status = 200, resp_body = ''{}'' \<rparr>));
        m = \<lparr> element_id = 0, className = ''form-success'', message_html = success_text \<rparr>
    in map field_value (form_fields f) = [''ada@example.org''] \<and>
       map field_value (form_fields f') = [[]] \<and>
       appended f' = [m] \<and>
       m \<in> set (appended (advance 3200 f')) \<and>
       m \<notin> set (appended (advance 5200 f')) \<and>
       submitButton (advance 3199 f') =
         Some \<lparr> disabled = True, innerHTML = thank_you_html, classList = [''btn'', ''success''] \<rparr> \<and>
       submitButton (advance 3200 f') =
         Some \<lparr> disabled = False, innerHTML = ''Join Waitlist'', classList = [''btn''] \<rparr>)"
proof -
  define b0 where "b0 = \<lparr> disabled = False, innerHTML = ''Join Waitlist'', classList = [''btn''] \<rparr>"
  define r where "r = \<lparr> resp_ok = True, resp_status = 200, resp_body = ''{}'' \<rparr>"
  define flds where "flds = [\<lparr> field_name = ''email'', field_value = [], defaultValue = [] \<rparr>]"
  define f0 where "f0 = form_run (page_loaded flds (Some b0)) [Input ''email'' ''ada@example.org'']"
  define f where "f = form_run (form_step f0 Submit) [Advance 200]"
  have h: "submitButton f0 = Some b0" "\<not> disabled b0" "no_response [Advance 200]" "resp_ok r"
    by (simp_all add: f0_def form_run_def page_loaded_def b0_def r_def)
  have fv: "submitButton f = Some (b0\<lparr> disabled := True, innerHTML := sending_html \<rparr>)"
    "form_fields f = [\<lparr> field_name = ''email'', field_value = ''ada@example.org'', defaultValue = [] \<rparr>]"
    "appended f = []" "clock f = 200" "next_element f = 0"
    by (simp_all add: f_def f0_def flds_def b0_def form_run_def page_loaded_def can_submit_def
          submit_begin_def upd_button_def advance_def)
  show ?thesis
    unfolding Let_def b0_def [symmetric] r_def [symmetric] flds_def [symmetric]
      f0_def [symmetric] f_def [symmetric]
    using success_resets_form_and_confirms [OF f0_def h(1,2,3) f_def h(4), of 3200]
      success_resets_form_and_confirms [OF f0_def h(1,2,3) f_def h(4), of 5200]
      success_resets_form_and_confirms [OF f0_def h(1,2,3) f_def h(4), of 3199]
    by (simp add: fv b0_def class_add_def class_remove_def)
qed

text \<open>
  C4. A submission starts on an enabled submit button, any events but its response
  follow, and it ends in failure: the response is not \<^verbatim>\<open>ok\<close>, or \<^verbatim>\<open>fetch\<close> rejects. Then
  the handler's continuation changes no field (\<^verbatim>\<open>form.reset()\<close> is not on this path),
  logs the error and appends the message of class \<^verbatim>\<open>form-error\<close>, and its one timeout
  does the rest: at every time before 5000 ms have passed since the failure the message
  is there and the button shows the error, disabled, with the fields as they were; from
  then on the message is gone and the button is enabled, with the text it had when the
  submission started and no \<^verbatim>\<open>error\<close> class, the fields still as they were.
\<close>

theorem failure_keeps_values_and_shows_error:
  assumes "f0 = form_run (page_loaded flds btn) evs0"
    and "submitButton f0 = Some b0" and "\<not> disabled b0"
    and "no_response evs1"
    and "f = form_run (form_step f0 Submit) evs1"
    and "failed res"
  shows "case submitButton f of
           None \<Rightarrow> False
         | Some b \<Rightarrow>
           disabled b \<and>
           form_fields (form_step f (Response res)) = form_fields f \<and>
           form_fields (advance t (form_step f (Response res))) = form_fields f \<and>
           console_errors (form_step f (Response res)) = console_errors f @ [error_of res] \<and>
           appended (form_step f (Response res)) = appended f @
             [\<lparr> element_id = next_element f, className = ''form-error'',
                message_html = error_text \<rparr>] \<and>
           (t < clock f + 5000 \<longrightarrow>
              \<lparr> element_id = next_element f, className = ''form-error'',
                message_html = error_text \<rparr>
                \<in> set (appended (advance t (form_step f (Response res)))) \<and>
              submitButton (advance t (form_step f (Response res))) =
                Some (b\<lparr> innerHTML := error_html,
                         classList := class_add ''error'' (classList b) \<rparr>)) \<and>
           (clock f + 5000 \<le> t \<longrightarrow>
              \<lparr> element_id = next_element f, className = ''form-error'',
                message_html = error_text \<rparr>
                \<notin> set (appended (advance t (form_step f (Response res)))) \<and>
              submitButton (advance t (form_step f (Response res))) =
                Some (b\<lparr> disabled := False, innerHTML := innerHTML b0,
                         classList := class_remove ''error'' (class_add ''error'' (classList b)) \<rparr>))"
proof -
  have inv: "form_inv f" and aw: "awaiting f = [innerHTML b0]"
    using waiting_for_response [OF assms(1-5)] by simp_all
  obtain g b where step: "form_step f (Response res) = submit_resume (innerHTML b0) res g"
    and g: "submitButton g = Some b" "reset_due g = []" "ids_in_order g"
    and b: "submitButton f = Some b" "disabled b"
    and same: "form_fields g = form_fields f" "appended g = appended f" "clock g = clock f"
      "next_element g = next_element f" "console_errors g = console_errors f"
    by (rule response_step [OF inv aw])
  have run: "form_step f (Response res) = on_error (innerHTML b0) (error_of res) g"
    unfolding step by (rule resume_failed [OF assms(6)])
  show ?thesis
    unfolding run
    using failure_timeline [OF g, of t "innerHTML b0" "error_of res"] b same
    by (simp add: on_error_eq [OF g(1)] advance_frame)
qed

theorem failure_keeps_values_and_shows_error_witness:
  "(let f = form_run (form_step (form_run
               (page_loaded [\<lparr> field_name = ''email'', field_value = [], defaultValue = [] \<rparr>]
                  (Some \<lparr> disabled = False, innerHTML = ''Join Waitlist'', classList = [''btn''] \<rparr>))
               [Input ''email'' ''ada@example.org'']) Submit) [Advance 200];
        f' = form_step f (Response (Rejected ''Failed to fetch''));
        m = \<lparr> element_id = 0, className = ''form-error'', message_html = error_text \<rparr>
    in map field_value (form_fields f) = [''ada@example.org''] \<and>
       form_fields f' = form_fields f \<and>
       form_fields (advance 5200 f') = form_fields f \<and>
       console_errors f' = [''Failed to fetch''] \<and>
       appended f' = [m] \<and>
       m \<in> set (appended (advance 5199 f')) \<and>
       m \<notin> set (appended (advance 5200 f')) \<and>
       submitButton (advance 5199 f') =
         Some \<lparr> disabled = True, innerHTML = error_html, classList = [''btn'', ''error''] \<rparr> \<and>
       submitButton (advance 5200 f') =
         Some \<lparr> disabled = False, innerHTML = ''Join Waitlist'', classList = [''btn''] \<rparr>)"
proof -
  define b0 where "b0 = \<lparr> disabled = False, innerHTML = ''Join Waitlist'', classList = [''btn''] \<rparr>"
  define flds where "flds = [\<lparr> field_name = ''email'', field_value = [], defaultValue = [] \<rparr>]"
  define f0 where "f0 = form_run (page_loaded flds (Some b0)) [Input ''email'' ''ada@example.org'']"
  define f where "f = form_run (form_step f0 Submit) [Advance 200]"
  have h: "submitButton f0 = Some b0" "\<not> disabled b0" "no_response [Advance 200]"
    "failed (Rejected ''Failed to fetch'')"
    by (simp_all add: f0_def form_run_def page_loaded_def b0_def)
  have fv: "submitButton f = Some (b0\<lparr> disabled := True, innerHTML := sending_html \<rparr>)"
    "form_fields f = [\<lparr> field_name = ''email'', field_value = ''ada@example.org'', defaultValue = [] \<rparr>]"
    "appended f = []" "clock f = 200" "next_element f = 0" "console_errors f = []"
    by (simp_all add: f_def f0_def flds_def b0_def form_run_def page_loaded_def can_submit_def
          submit_begin_def upd_button_def advance_def)
  show ?thesis
    unfolding Let_def b0_def [symmetric] flds_def [symmetric] f0_def [symmetric] f_def [symmetric]
    using failure_keeps_values_and_shows_error [OF f0_def h(1,2,3) f_def h(4), of 5199]
      failure_keeps_values_and_shows_error [OF f0_def h(1,2,3) f_def h(4), of 5200]
    by (simp add: fv b0_def class_add_def class_remove_def)
qed

text \<open>
  The whole handler is the submit event followed by its response, on a page where a
  submit event can be dispatched and no other handler is waiting.
\<close>

lemma handler_is_submit_then_response:
  assumes "can_submit f" "awaiting f = []"
  shows "form_run f [Submit, Response res] =
           (case submit_handler res f of Inl e \<Rightarrow> f | Inr g \<Rightarrow> g)"
proof (cases "submitButton f")
  case None
  then show ?thesis
    using assms by (simp add: form_run_def submit_handler_def submit_begin_def)
next
  case (Some b)
  define u where "u = upd_button (\<lambda>b. b\<lparr> disabled := True, innerHTML := sending_html \<rparr>) f"
  have "awaiting u = []" using assms(2) by (simp add: u_def upd_button_def)
  then have u: "u\<lparr> awaiting := [] \<rparr> = u" by (cases u) simp
  have "form_run f [Submit, Response res] = submit_resume (innerHTML b) res (u\<lparr> awaiting := [] \<rparr>)"
    using assms Some \<open>awaiting u = []\<close>
    by (simp add: form_run_def submit_begin_def u_def [symmetric])
  moreover have "submit_handler res f = Inr (submit_resume (innerHTML b) res u)"
    using Some by (simp add: submit_handler_def submit_begin_def u_def [symmetric])
  ultimately show ?thesis by (simp add: u)
qed

text \<open>
  C9. Two responses with the same \<^verbatim>\<open>ok\<close> flag lead the handler to the same state of
  the page, whatever their status codes and bodies: the whole run of the handler, the
  continuation alone, and the step of the page's state machine agree, and the branch
  taken is the one the flag selects.
\<close>

theorem outcome_depends_only_on_ok:
  assumes "resp_ok r1 = resp_ok r2"
  shows "submit_handler (Resolved r1) f = submit_handler (Resolved r2) f \<and>
         submit_resume originalButtonText (Resolved r1) f =
           submit_resume originalButtonText (Resolved r2) f \<and>
         submit_resume originalButtonText (Resolved r1) f =
           (if resp_ok r2 then on_success originalButtonText f
            else on_error originalButtonText ''Form submission failed'' f) \<and>
         form_step f (Response (Resolved r1)) = form_step f (Response (Resolved r2))"
  using assms
  by (simp add: submit_handler_def submit_resume_def split: sum.splits list.splits)

theorem outcome_depends_only_on_ok_witness:
  "submit_handler (Resolved \<lparr> resp_ok = True, resp_status = 200, resp_body = ''{}'' \<rparr>)
     (page_loaded [\<lparr> field_name = ''email'', field_value = ''ada@example.org'', defaultValue = [] \<rparr>]
        (Some \<lparr> disabled = False, innerHTML = ''Join Waitlist'', classList = [''btn''] \<rparr>)) =
   submit_handler (Resolved \<lparr> resp_ok = True, resp_status = 204, resp_body = ''<html>'' \<rparr>)
     (page_loaded [\<lparr> field_name = ''email'', field_value = ''ada@example.org'', defaultValue = [] \<rparr>]
        (Some \<lparr> disabled = False, innerHTML = ''Join Waitlist'', classList = [''btn''] \<rparr>))"
proof -
  have "resp_ok \<lparr> resp_ok = True, resp_status = 200, resp_body = ''{}'' \<rparr> =
        resp_ok \<lparr> resp_ok = True, resp_status = 204, resp_body = ''<html>'' \<rparr>"
    by simp
  from outcome_depends_only_on_ok [OF this] show ?thesis by blast
qed

text \<open>
  C7 does not hold of the submit handler. Unlike the initialisers of the hero fade, the
  orbs, the menu and the panel, which return at once when an element they need is
  missing, the handler reads
  \<^verbatim>\<open>innerHTML\<close> of the result of \<^verbatim>\<open>querySelector\<close> with no test: on a form with no
  \<^verbatim>\<open>button[type="submit"]\<close> it throws a \<^verbatim>\<open>TypeError\<close>, before the \<^verbatim>\<open>try\<close> block and
  so uncaught, whatever the outcome of the request would be.
\<close>

theorem submit_handler_throws_without_button:
  "submit_handler res (f\<lparr> submitButton := None \<rparr>) =
     Inl (TypeError ''Cannot read properties of null'')"
  by (simp add: submit_handler_def submit_begin_def)

subsection \<open>The button while a submission is under way\<close>

text \<open>
  C10, as the claim states it, fails in its last words. After a success the button is
  reset 3000 ms after the response and the confirmation message is removed 2000 ms later:
  in between the result is still displayed, the button is enabled, and a submit event
  starts a second handler.
\<close>

theorem resubmit_while_confirmation_shown_counterexample:
  "(let f = form_run
              (page_loaded [] (Some \<lparr> disabled = False, innerHTML = ''Join Waitlist'', classList = [''btn''] \<rparr>))
              [Submit, Response (Resolved \<lparr> resp_ok = True, resp_status = 200, resp_body = ''{}'' \<rparr>),
               Advance 3000]
    in appended f = [\<lparr> element_id = 0, className = ''form-success'', message_html = success_text \<rparr>] \<and>
       timers f = [(5000, RemoveMessage 0)] \<and>
       \<not> btn_disabled f \<and>
       awaiting f = [] \<and>
       awaiting (form_step f Submit) = [''Join Waitlist''] \<and>
       appended (form_step f Submit) =
         [\<lparr> element_id = 0, className = ''form-success'', message_html = success_text \<rparr>])"
  by (simp add: form_run_def page_loaded_def can_submit_def submit_begin_def upd_button_def
        submit_resume_def on_success_def form_reset_def appendChild_def setTimeout_def
        advance_def btn_disabled_def class_add_def class_remove_def Let_def)

text \<open>
  C10, amended. In every state the page reaches from its load, by any submit events,
  responses, passing of time and typing: while a submission is under way the button is
  disabled and a submit event starts nothing. A submission is under way from the submit
  event that starts a handler (on an enabled button), through the response, which sets
  the one reset timeout 3000 ms ahead after a success and 5000 ms ahead after a failure,
  and at every time before that timeout is due; once it is due the button is enabled
  and no submission is under way. (What is displayed of the result after that, the
  confirmation message of a success in its last 2000 ms, is outside the statement.)
\<close>

theorem button_disabled_until_reset:
  "(let f = form_run (page_loaded flds btn) evs in
      (busy f \<longrightarrow> btn_disabled f \<and> form_step f Submit = f) \<and>
      (submitButton f = Some b \<and> \<not> disabled b \<longrightarrow>
         awaiting (form_step f Submit) = [innerHTML b] \<and> busy (form_step f Submit) \<and>
         btn_disabled (form_step f Submit)) \<and>
      (awaiting f \<noteq> [] \<longrightarrow>
         awaiting (form_step f (Response res)) = [] \<and>
         reset_due (form_step f (Response res)) = [clock f + (if failed res then 5000 else 3000)] \<and>
         busy (form_step f (Response res))) \<and>
      (reset_due f = [d] \<and> t < d \<longrightarrow>
         busy (form_step f (Advance t)) \<and> btn_disabled (form_step f (Advance t))) \<and>
      (reset_due f = [d] \<and> d \<le> t \<longrightarrow>
         \<not> busy (form_step f (Advance t)) \<and> \<not> btn_disabled (form_step f (Advance t))))"
proof -
  define f where "f = form_run (page_loaded flds btn) evs"
  have inv: "form_inv f"
    unfolding f_def by (rule form_inv_run [OF form_inv_loaded])
  have 1: "busy f \<longrightarrow> btn_disabled f \<and> form_step f Submit = f"
    using busy_blocks_submit [OF inv] by simp
  have 2: "submitButton f = Some b \<and> \<not> disabled b \<longrightarrow>
         awaiting (form_step f Submit) = [innerHTML b] \<and> busy (form_step f Submit) \<and>
         btn_disabled (form_step f Submit)"
    using submit_starts [OF inv] by blast
  have 3: "awaiting f \<noteq> [] \<longrightarrow>
         awaiting (form_step f (Response res)) = [] \<and>
         reset_due (form_step f (Response res)) = [clock f + (if failed res then 5000 else 3000)] \<and>
         busy (form_step f (Response res))"
    using response_sets_reset [OF inv] by blast
  have 4: "reset_due f = [d] \<and> t < d \<longrightarrow>
         busy (form_step f (Advance t)) \<and> btn_disabled (form_step f (Advance t))"
  proof
    assume a: "reset_due f = [d] \<and> t < d"
    then have "busy (advance t f)" by (simp add: busy_iff reset_due_advance)
    moreover have "form_inv (advance t f)" using form_inv_Advance [OF inv, of t] by simp
    ultimately show "busy (form_step f (Advance t)) \<and> btn_disabled (form_step f (Advance t))"
      by (simp add: form_inv_def)
  qed
  have 5: "reset_due f = [d] \<and> d \<le> t \<longrightarrow>
         \<not> busy (form_step f (Advance t)) \<and> \<not> btn_disabled (form_step f (Advance t))"
  proof
    assume a: "reset_due f = [d] \<and> d \<le> t"
    then have "awaiting f = []" using inv by (simp add: form_inv_def)
    then show "\<not> busy (form_step f (Advance t)) \<and> \<not> btn_disabled (form_step f (Advance t))"
      using advance_enables_at_reset [of f d t] a by (simp add: busy_iff advance_frame)
  qed
  show ?thesis
    unfolding Let_def f_def [symmetric] using 1 2 3 4 5 by blast
qed

theorem button_disabled_until_reset_witness:
  "busy (form_run (page_loaded [] (Some \<lparr> disabled = False, innerHTML = ''Join Waitlist'', classList = [''btn''] \<rparr>)) [Submit]) \<and>
   btn_disabled (form_run (page_loaded [] (Some \<lparr> disabled = False, innerHTML = ''Join Waitlist'', classList = [''btn''] \<rparr>)) [Submit]) \<and>
   form_step (form_run (page_loaded [] (Some \<lparr> disabled = False, innerHTML = ''Join Waitlist'', classList = [''btn''] \<rparr>)) [Submit]) Submit =
     form_run (page_loaded [] (Some \<lparr> disabled = False, innerHTML = ''Join Waitlist'', classList = [''btn''] \<rparr>)) [Submit] \<and>
   busy (form_step (form_run (page_loaded [] (Some \<lparr> disabled = False, innerHTML = ''Join Waitlist'', classList = [''btn''] \<rparr>)) []) Submit) \<and>
   reset_due (form_step (form_run (page_loaded [] (Some \<lparr> disabled = False, innerHTML = ''Join Waitlist'', classList = [''btn''] \<rparr>)) [Submit])
      (Response (Rejected ''Failed to fetch''))) = [5000] \<and>
   reset_due (form_run (page_loaded [] (Some \<lparr> disabled = False, innerHTML = ''Join Waitlist'', classList = [''btn''] \<rparr>))
      [Submit, Response (Resolved \<lparr> resp_ok = True, resp_status = 200, resp_body = ''{}'' \<rparr>)]) = [3000] \<and>
   btn_disabled (form_step (form_run (page_loaded [] (Some \<lparr> disabled = False, innerHTML = ''Join Waitlist'', classList = [''btn''] \<rparr>))
      [Submit, Response (Resolved \<lparr> resp_ok = True, resp_status = 200, resp_body = ''{}'' \<rparr>)]) (Advance 2999)) \<and>
   \<not> btn_disabled (form_step (form_run (page_loaded [] (Some \<lparr> disabled = False, innerHTML = ''Join Waitlist'', classList = [''btn''] \<rparr>))
      [Submit, Response (Resolved \<lparr> resp_ok = True, resp_status = 200, resp_body = ''{}'' \<rparr>)]) (Advance 3000))"
proof -
  define b where "b = \<lparr> disabled = False, innerHTML = ''Join Waitlist'', classList = [''btn''] \<rparr>"
  define r where "r = \<lparr> resp_ok = True, resp_status = 200, resp_body = ''{}'' \<rparr>"
  define f0 where "f0 = form_run (page_loaded [] (Some b)) []"
  define f1 where "f1 = form_run (page_loaded [] (Some b)) [Submit]"
  define f2 where "f2 = form_run (page_loaded [] (Some b)) [Submit, Response (Resolved r)]"
  have s0: "submitButton f0 = Some b \<and> \<not> disabled b"
    by (simp add: f0_def b_def form_run_def page_loaded_def)
  have f1: "f1 = (page_loaded [] (Some b))
      \<lparr> submitButton := Some (b\<lparr> disabled := True, innerHTML := sending_html \<rparr>),
        awaiting := [''Join Waitlist''] \<rparr>"
    by (simp add: f1_def b_def form_run_def page_loaded_def can_submit_def submit_begin_def
          upd_button_def)
  have s1: "busy f1" "awaiting f1 \<noteq> []" "clock f1 = 0"
    by (simp_all add: f1 busy_def page_loaded_def)
  have s2: "reset_due f2 = [3000]"
    by (simp add: f2_def r_def b_def form_run_def page_loaded_def can_submit_def submit_begin_def
          upd_button_def submit_resume_def on_success_def form_reset_def appendChild_def
          setTimeout_def reset_due_def Let_def)
  have bad: "failed (Rejected ''Failed to fetch'')" by simp
  show ?thesis
    using s0 s1 s2 bad
      button_disabled_until_reset [of "[]" "Some b" "[]" b "Rejected ''Failed to fetch''" 3000 2999]
      button_disabled_until_reset [of "[]" "Some b" "[Submit]" b "Rejected ''Failed to fetch''" 3000 2999]
      button_disabled_until_reset [of "[]" "Some b" "[Submit, Response (Resolved r)]" b "Resolved r" 3000 2999]
      button_disabled_until_reset [of "[]" "Some b" "[Submit, Response (Resolved r)]" b "Resolved r" 3000 3000]
    unfolding Let_def b_def [symmetric] r_def [symmetric] f0_def [symmetric] f1_def [symmetric]
      f2_def [symmetric]
    by simp
qed

end
